theory Spec2Isabelle
  imports Complex_Main
begin

section \<open>Python strings\<close>

text \<open>
  A Python \<open>str\<close> is a sequence of Unicode code points; it is modelled as a list of
  naturals, one per code point, so that \<open>length\<close> is Python's \<open>len\<close>.  ASCII
  literals are written through \<open>py\<close>.
\<close>

type_synonym ustr = "nat list"

definition py :: "string \<Rightarrow> ustr" where
  "py s = map of_char s"

text \<open>
  \<open>str.isspace\<close> on one code point.  CPython uses the same predicate
  (\<open>Py_UNICODE_ISSPACE\<close>) for \<open>str.strip()\<close> without argument and for the
  class \<open>\s\<close> of a \<open>str\<close> pattern in \<open>re\<close>.
\<close>

definition py_isspace :: "nat \<Rightarrow> bool" where
  "py_isspace c \<longleftrightarrow>
     (9 \<le> c \<and> c \<le> 13) \<or> (28 \<le> c \<and> c \<le> 32) \<or> c = 133 \<or> c = 160 \<or> c = 5760 \<or>
     (8192 \<le> c \<and> c \<le> 8202) \<or> c = 8232 \<or> c = 8233 \<or> c = 8239 \<or> c = 8287 \<or> c = 12288"

text \<open>\<open>s.strip()\<close>: leading and trailing whitespace removed.\<close>

definition py_strip :: "ustr \<Rightarrow> ustr" where
  "py_strip s = rev (dropWhile py_isspace (rev (dropWhile py_isspace s)))"

text \<open>\<open>s.replace(a, b)\<close> for one-character \<open>a\<close> and \<open>b\<close>.\<close>

definition replace_char :: "nat \<Rightarrow> nat \<Rightarrow> ustr \<Rightarrow> ustr" where
  "replace_char a b s = map (\<lambda>c. if c = a then b else c) s"

text \<open>
  \<open>re.sub(r"\s+", "_", s)\<close>: every maximal run of whitespace becomes one underscore
  (code point 95).
\<close>

function re_sub_ws :: "ustr \<Rightarrow> ustr" where
  "re_sub_ws [] = []"
| "re_sub_ws (c # cs) =
     (if py_isspace c then 95 # re_sub_ws (dropWhile py_isspace cs)
      else c # re_sub_ws cs)"
  by pat_completeness auto
termination
  by (relation "measure length") (auto simp: length_dropWhile_le less_Suc_eq_le)

section \<open>Document keys: \<open>sanitizar_doc_id\<close>\<close>

text \<open>
  \<^verbatim>\<open>
  def sanitizar_doc_id(base: Any) -> str:
      s = str(base).strip()
      s = s.replace("/", "-")
      s = s.replace("\\", "-")
      s = re.sub(r"\s+", "_", s)
      return s
  \<close>
  The three copies of the function (\<open>subir_a_firestore.py\<close>, \<open>subir_a_bigquery.py\<close>,
  \<open>compras_to_bigquery.py\<close>) compute the same thing.  The argument is a string, for which
  \<open>str(base)\<close> is \<open>base\<close>.  Code points: \<open>/\<close> is 47, \<open>\\<close> is 92, \<open>-\<close> is 45.
\<close>

definition sanitizar_doc_id :: "ustr \<Rightarrow> ustr" where
  "sanitizar_doc_id base =
     (let s = py_strip base;
          s = replace_char 47 45 s;
          s = replace_char 92 45 s;
          s = re_sub_ws s
      in s)"

section \<open>The Python runtime as a parameter\<close>

text \<open>
  The program calls library functions whose tables are not part of the repository:
  the Unicode database (\<open>unicodedata.normalize\<close>, \<open>unicodedata.combining\<close>,
  \<open>str.lower\<close>, the decimal digits matched by \<open>\d\<close> and read by \<open>int\<close>),
  IEEE double arithmetic and \<open>date.strftime\<close>.  They are taken as a record of functions;
  every definition below that needs one takes the record as its first argument, and the
  general theorems hold for every such record.

  \<^item> \<open>rt_decimal c\<close>: the decimal value of code point \<open>c\<close> when it is a Unicode decimal
    digit (category Nd), \<open>None\<close> otherwise;
  \<^item> \<open>rt_nfd s\<close>: \<open>unicodedata.normalize("NFD", s)\<close>;
  \<^item> \<open>rt_combining c\<close>: \<open>unicodedata.combining(c)\<close>, the canonical combining class;
  \<^item> \<open>rt_lower s\<close>: \<open>s.lower()\<close>;
  \<^item> \<open>rt_round x\<close>: the double nearest to the rational \<open>x\<close>;
  \<^item> \<open>rt_strftime d\<close>: \<open>d.strftime("%Y%m%d")\<close> for the date with ordinal \<open>d\<close>
    (\<open>date.toordinal\<close>).
\<close>

record pyrt =
  rt_decimal :: "nat \<Rightarrow> nat option"
  rt_nfd :: "ustr \<Rightarrow> ustr"
  rt_combining :: "nat \<Rightarrow> nat"
  rt_lower :: "ustr \<Rightarrow> ustr"
  rt_round :: "rat \<Rightarrow> rat"
  rt_strftime :: "int \<Rightarrow> ustr"

text \<open>Python values whose type is \<open>Any\<close> in the source.\<close>

datatype pyobj = PyNone | PyBool bool | PyInt int | PyFloat rat | PyStr ustr | PyOther

section \<open>Year of the opening date: \<open>obtener_anio_desde_fecha\<close>\<close>

text \<open>
  \<open>re.search(r"(\d{4})", s)\<close>: the leftmost position where four consecutive decimal
  digits start; the result is the matched group.
\<close>

fun re_search_d4 :: "(nat \<Rightarrow> nat option) \<Rightarrow> ustr \<Rightarrow> ustr option" where
  "re_search_d4 dec [] = None"
| "re_search_d4 dec (c # cs) =
     (if 4 \<le> length (c # cs) \<and> list_all (\<lambda>x. dec x \<noteq> None) (take 4 (c # cs))
      then Some (take 4 (c # cs))
      else re_search_d4 dec cs)"

text \<open>
  \<open>int(s)\<close> on a string of decimal digits, most significant first.  \<open>None\<close> stands for
  \<open>ValueError\<close>, which \<open>int\<close> raises on the empty string and on a character that is
  no digit (signs, blanks and underscores, which \<open>int\<close> also accepts, do not occur in a
  match of \<open>\d{4}\<close>).
\<close>

fun digits_value :: "(nat \<Rightarrow> nat option) \<Rightarrow> ustr \<Rightarrow> int \<Rightarrow> int option" where
  "digits_value dec [] acc = Some acc"
| "digits_value dec (c # cs) acc =
     (case dec c of None \<Rightarrow> None | Some d \<Rightarrow> digits_value dec cs (10 * acc + int d))"

definition py_int :: "(nat \<Rightarrow> nat option) \<Rightarrow> ustr \<Rightarrow> int option" where
  "py_int dec s = (if s = [] then None else digits_value dec s 0)"

text \<open>
  \<^verbatim>\<open>
  def obtener_anio_desde_fecha(fecha_apertura: Any) -> Optional[int]:
      if not isinstance(fecha_apertura, str):
          return None
      m = re.search(r"(\d{4})", fecha_apertura)
      if not m:
          return None
      try:
          return int(m.group(1))
      except ValueError:
          return None
  \<close>
\<close>

definition obtener_anio_desde_fecha :: "pyrt \<Rightarrow> pyobj \<Rightarrow> int option" where
  "obtener_anio_desde_fecha rt fecha_apertura =
     (case fecha_apertura of
        PyStr s \<Rightarrow>
          (case re_search_d4 (rt_decimal rt) s of
             None \<Rightarrow> None
           | Some g \<Rightarrow> (case py_int (rt_decimal rt) g of Some n \<Rightarrow> Some n | None \<Rightarrow> None))
      | _ \<Rightarrow> None)"

text \<open>
  The claim's words, for comparison: four consecutive decimal digits start at index \<open>i\<close> of
  \<open>s\<close>, and the integer they denote.
\<close>

definition four_digits_at :: "(nat \<Rightarrow> nat option) \<Rightarrow> ustr \<Rightarrow> nat \<Rightarrow> bool" where
  "four_digits_at dec s i \<longleftrightarrow>
     i + 4 \<le> length s \<and> dec (s ! i) \<noteq> None \<and> dec (s ! (i + 1)) \<noteq> None
       \<and> dec (s ! (i + 2)) \<noteq> None \<and> dec (s ! (i + 3)) \<noteq> None"

definition digit_of :: "(nat \<Rightarrow> nat option) \<Rightarrow> nat \<Rightarrow> int" where
  "digit_of dec c = (case dec c of None \<Rightarrow> 0 | Some d \<Rightarrow> int d)"

definition four_digit_value :: "(nat \<Rightarrow> nat option) \<Rightarrow> ustr \<Rightarrow> nat \<Rightarrow> int" where
  "four_digit_value dec s i =
     1000 * digit_of dec (s ! i) + 100 * digit_of dec (s ! (i + 1))
       + 10 * digit_of dec (s ! (i + 2)) + digit_of dec (s ! (i + 3))"

section \<open>Classification: \<open>es_tic\<close>\<close>

text \<open>The module constant \<open>TIC_KEYWORDS\<close> of \<open>scrapers/comprar.py\<close>, in source order.\<close>

definition TIC_KEYWORDS :: "ustr list" where
  "TIC_KEYWORDS = [
     py ''computadora'',
     py ''computadoras'',
     py ''notebook'',
     py ''notebooks'',
     py ''laptop'',
     py ''laptops'',
     py ''pc de escritorio'',
     py ''equipo inform'' @ [225] @ py ''tico'',
     py ''equipo informatico'',
     py ''equipos inform'' @ [225] @ py ''ticos'',
     py ''equipos informaticos'',
     py ''equipamiento inform'' @ [225] @ py ''tico'',
     py ''equipamiento informatico'',
     py ''servidor'',
     py ''servidores'',
     py ''impresora'',
     py ''impresoras'',
     py ''multifunci'' @ [243] @ py ''n'',
     py ''multifuncion'',
     py ''plotter'',
     py ''scanner'',
     py ''esc'' @ [225] @ py ''ner'',
     py ''monitor'',
     py ''monitores'',
     py ''teclado'',
     py ''teclados'',
     py ''mouse'',
     py ''mouses'',
     py ''disco r'' @ [237] @ py ''gido'',
     py ''discos r'' @ [237] @ py ''gidos'',
     py ''disco duro'',
     py ''discos duros'',
     py ''ssd'',
     py ''switch'',
     py ''switches'',
     py ''router'',
     py ''routers'',
     py ''firewall'',
     py ''firewalls'',
     py ''access point'',
     py ''punto de acceso'',
     py ''wifi'',
     py ''redes inform'' @ [225] @ py ''ticas'',
     py ''redes informaticas'',
     py ''cableado estructurado'',
     py ''datacenter'',
     py ''data center'',
     py ''virtualizaci'' @ [243] @ py ''n'',
     py ''virtualizacion'',
     py ''storage'',
     py ''cabina de almacenamiento'',
     py ''infraestructura tecnol'' @ [243] @ py ''gica'',
     py ''infraestructura tecnologica'',
     py ''software'',
     py ''sistema inform'' @ [225] @ py ''tico'',
     py ''sistema informatico'',
     py ''sistemas inform'' @ [225] @ py ''ticos'',
     py ''sistemas informaticos'',
     py ''programa inform'' @ [225] @ py ''tico'',
     py ''programa informatico'',
     py ''programas inform'' @ [225] @ py ''ticos'',
     py ''programas informaticos'',
     py ''licencia de software'',
     py ''licencias de software'',
     py ''antivirus'',
     py ''licencias de uso de software'',
     py ''suscripci'' @ [243] @ py ''n de software'',
     py ''suscripcion de software'',
     py ''desarrollo de software'',
     py ''desarrollo de sistemas'',
     py ''desarrollo inform'' @ [225] @ py ''tico'',
     py ''desarrollo informatico'',
     py ''mantenimiento de software'',
     py ''mantenimiento de sistemas'',
     py ''implementaci'' @ [243] @ py ''n de software'',
     py ''implementacion de software'',
     py ''servicios inform'' @ [225] @ py ''ticos'',
     py ''servicios informaticos'',
     py ''servicios de inform'' @ [225] @ py ''tica'',
     py ''servicios de informatica'',
     py ''soporte t'' @ [233] @ py ''cnico inform'' @ [225] @ py ''tico'',
     py ''soporte tecnico informatico'',
     py ''servicio t'' @ [233] @ py ''cnico inform'' @ [225] @ py ''tico'',
     py ''servicio tecnico informatico'',
     py ''hosting'',
     py ''cloud'',
     py ''nube'',
     py ''saas'',
     py ''iaas'',
     py ''paas'',
     py ''tecnolog'' @ [237] @ py ''as de la informaci'' @ [243] @ py ''n'',
     py ''tecnologias de la informacion''
  ]"

text \<open>
  \<^verbatim>\<open>
  def _strip_accents(s: str) -> str:
      if not s:
          return ""
      nfkd = unicodedata.normalize("NFD", s)
      return "".join(c for c in nfkd if not unicodedata.combining(c))
  \<close>
\<close>

definition strip_accents :: "pyrt \<Rightarrow> ustr \<Rightarrow> ustr" where
  "strip_accents rt s =
     (if s = [] then []
      else filter (\<lambda>c. rt_combining rt c = 0) (rt_nfd rt s))"

text \<open>Python's \<open>a in b\<close> on strings: \<open>a\<close> occurs in \<open>b\<close> as a contiguous block.\<close>

fun py_in :: "ustr \<Rightarrow> ustr \<Rightarrow> bool" where
  "py_in a [] = (a = [])"
| "py_in a (c # cs) = (take (length a) (c # cs) = a \<or> py_in a cs)"

text \<open>
  \<^verbatim>\<open>
  def es_tic(texto: Optional[str]) -> bool:
      if not texto:
          return False
      txt = _strip_accents(texto).lower()
      for kw in TIC_KEYWORDS:
          kw_norm = _strip_accents(kw).lower()
          if len(kw_norm) <= 2:
              continue
          if kw_norm in txt:
              return True
      return False
  \<close>
\<close>

definition normalizar :: "pyrt \<Rightarrow> ustr \<Rightarrow> ustr" where
  "normalizar rt s = rt_lower rt (strip_accents rt s)"

fun es_tic_loop :: "pyrt \<Rightarrow> ustr \<Rightarrow> ustr list \<Rightarrow> bool" where
  "es_tic_loop rt txt [] = False"
| "es_tic_loop rt txt (kw # kws) =
     (let kw_norm = normalizar rt kw in
      if length kw_norm \<le> 2 then es_tic_loop rt txt kws
      else if py_in kw_norm txt then True
      else es_tic_loop rt txt kws)"

definition es_tic :: "pyrt \<Rightarrow> ustr option \<Rightarrow> bool" where
  "es_tic rt texto =
     (case texto of
        None \<Rightarrow> False
      | Some t \<Rightarrow>
          if t = [] then False
          else es_tic_loop rt (normalizar rt t) TIC_KEYWORDS)"

section \<open>A concrete runtime for Latin-1 text\<close>

text \<open>
  The Unicode tables restricted to the code points below 256 (Basic Latin and Latin-1
  Supplement) and the combining marks their decompositions use; on these code points the
  functions agree with CPython's.  Doubles are replaced by exact rationals, which is exact
  wherever the examples below use it (all values there are small integers or dyadic).
  It serves to run the definitions on concrete inputs.
\<close>

definition latin1_decimal :: "nat \<Rightarrow> nat option" where
  "latin1_decimal c = (if 48 \<le> c \<and> c \<le> 57 then Some (c - 48) else None)"

text \<open>
  Combining marks: grave 768, acute 769, circumflex 770, tilde 771, diaeresis 776,
  ring 778, cedilla 807.
\<close>

definition latin1_mark :: "nat \<Rightarrow> nat" where
  "latin1_mark k =
     (if k \<in> {0, 8, 12, 18, 25} then 768
      else if k \<in> {1, 9, 13, 19, 26, 29} then 769
      else if k \<in> {2, 10, 14, 20, 27} then 770
      else if k \<in> {3, 17, 21} then 771
      else if k \<in> {4, 11, 15, 22, 28, 31} then 776
      else if k = 5 then 778
      else 807)"

definition latin1_base :: "nat \<Rightarrow> nat" where
  "latin1_base k =
     (if k \<le> 5 then 65
      else if k = 7 then 67
      else if 8 \<le> k \<and> k \<le> 11 then 69
      else if 12 \<le> k \<and> k \<le> 15 then 73
      else if k = 17 then 78
      else if 18 \<le> k \<and> k \<le> 22 then 79
      else if 25 \<le> k \<and> k \<le> 28 then 85
      else 89)"

text \<open>
  Canonical decomposition of one code point: the letters with a diacritic in
  \<open>0xC0..0xDD\<close> (capital) and \<open>0xE0..0xFD\<close>, \<open>0xFF\<close> (small) decompose into the
  base letter and one mark; \<open>0xC6\<close>, \<open>0xD0\<close>, \<open>0xD7\<close>, \<open>0xD8\<close>, \<open>0xDE\<close>, \<open>0xDF\<close> and
  their small forms do not.
\<close>

definition latin1_decomp :: "nat \<Rightarrow> ustr" where
  "latin1_decomp c =
     (if 192 \<le> c \<and> c \<le> 221 \<and> c - 192 \<notin> {6, 16, 23, 24}
        then [latin1_base (c - 192), latin1_mark (c - 192)]
      else if 224 \<le> c \<and> c \<le> 255 \<and> c - 224 \<notin> {6, 16, 23, 24, 30}
        then [latin1_base (c - 224) + 32, latin1_mark (c - 224)]
      else [c])"

definition latin1_nfd :: "ustr \<Rightarrow> ustr" where
  "latin1_nfd s = concat (map latin1_decomp s)"

definition latin1_combining :: "nat \<Rightarrow> nat" where
  "latin1_combining c =
     (if c = 807 then 202 else if 768 \<le> c \<and> c \<le> 788 then 230 else 0)"

definition latin1_lower_cp :: "nat \<Rightarrow> nat" where
  "latin1_lower_cp c =
     (if 65 \<le> c \<and> c \<le> 90 then c + 32
      else if 192 \<le> c \<and> c \<le> 222 \<and> c \<noteq> 215 then c + 32
      else c)"

text \<open>
  \<open>date.fromordinal(n).strftime("%Y%m%d")\<close> in the proleptic Gregorian calendar, for
  years 1 to 9999 (the range of \<open>datetime.date\<close>): the civil date is computed from the day
  count since 1 March of year 0, in 400-year eras.
\<close>

definition pad_digits :: "nat \<Rightarrow> nat \<Rightarrow> ustr" where
  "pad_digits w n = map (\<lambda>k. 48 + (n div 10 ^ (w - 1 - k)) mod 10) [0..<w]"

text \<open>
  The steps are chained as functions, each taking what the one before computed: the day
  count \<open>z\<close> since 1 March of year 0, the era and the day of the era, the year of the era,
  the day of the year counted from 1 March, the month counted from March.
\<close>

definition civil_month :: "nat \<Rightarrow> nat \<Rightarrow> nat \<Rightarrow> nat \<times> nat \<times> nat" where
  "civil_month y d m = (y + (if m \<le> 2 then 1 else 0), m, d)"

definition civil_mp :: "nat \<Rightarrow> nat \<Rightarrow> nat \<Rightarrow> nat \<times> nat \<times> nat" where
  "civil_mp y doy mp =
     civil_month y (doy - (153 * mp + 2) div 5 + 1) (if mp < 10 then mp + 3 else mp - 9)"

definition civil_doy :: "nat \<Rightarrow> nat \<Rightarrow> nat \<times> nat \<times> nat" where
  "civil_doy y doy = civil_mp y doy ((5 * doy + 2) div 153)"

definition civil_yoe :: "nat \<Rightarrow> nat \<Rightarrow> nat \<Rightarrow> nat \<times> nat \<times> nat" where
  "civil_yoe era doe yoe =
     civil_doy (yoe + era * 400) (doe - (365 * yoe + yoe div 4 - yoe div 100))"

definition civil_doe :: "nat \<Rightarrow> nat \<Rightarrow> nat \<times> nat \<times> nat" where
  "civil_doe era doe =
     civil_yoe era doe ((doe - doe div 1460 + doe div 36524 - doe div 146096) div 365)"

definition civil_of_ordinal :: "int \<Rightarrow> nat \<times> nat \<times> nat" where
  "civil_of_ordinal n = civil_doe (nat (n + 305) div 146097) (nat (n + 305) mod 146097)"

definition strftime_Ymd :: "int \<Rightarrow> ustr" where
  "strftime_Ymd n =
     (case civil_of_ordinal n of (y, m, d) \<Rightarrow> pad_digits 4 y @ pad_digits 2 m @ pad_digits 2 d)"

definition latin1_rt :: pyrt where
  "latin1_rt = \<lparr> rt_decimal = latin1_decimal,
                 rt_nfd = latin1_nfd,
                 rt_combining = latin1_combining,
                 rt_lower = map latin1_lower_cp,
                 rt_round = (\<lambda>x. x),
                 rt_strftime = strftime_Ymd \<rparr>"

section \<open>Adapter runs: values, effects, callbacks\<close>

text \<open>
  Fields of the scraped dictionaries are \<open>Optional[str]\<close>.  \<open>a or b\<close> yields \<open>a\<close> when it
  is truthy (a non-empty string) and \<open>b\<close> otherwise, whatever \<open>b\<close> is.
\<close>

definition truthy :: "ustr option \<Rightarrow> bool" where
  "truthy a = (case a of None \<Rightarrow> False | Some s \<Rightarrow> s \<noteq> [])"

definition py_or :: "ustr option \<Rightarrow> ustr option \<Rightarrow> ustr option" where
  "py_or a b = (if truthy a then a else b)"

text \<open>\<open>sep.join(xs)\<close>.\<close>

fun py_join :: "ustr \<Rightarrow> ustr list \<Rightarrow> ustr" where
  "py_join sep [] = []"
| "py_join sep [x] = x"
| "py_join sep (x # y # r) = x @ sep @ py_join sep (y # r)"

text \<open>
  \<open>" ".join(t for t in [a or "", b or ""] if t)\<close>, the text handed to \<open>es_tic\<close> by both
  COMPR.AR adapters.
\<close>

definition str_or_empty :: "ustr option \<Rightarrow> ustr" where
  "str_or_empty a = (case py_or a (Some []) of None \<Rightarrow> [] | Some s \<Rightarrow> s)"

definition texto_tic :: "ustr option \<Rightarrow> ustr option \<Rightarrow> ustr" where
  "texto_tic a b = py_join (py '' '') (filter (\<lambda>t. t \<noteq> []) [str_or_empty a, str_or_empty b])"

text \<open>
  Exceptions that reach the caller of an adapter: of a request, of the argument check of the
  gazette adapter, of the browser, of \<open>df.to_excel\<close>, and of \<open>date + timedelta\<close> past
  \<open>date.max\<close>.
\<close>

datatype error = HTTPError | ValueError | WebDriverError | OSError | OverflowError

text \<open>
  What a run does that its caller can observe, in order: a call of \<open>is_cancelled()\<close> with
  its answer, a call of \<open>progress_callback(n)\<close>, a record appended to the result list, and
  the spreadsheet written by \<open>df.to_excel\<close> (directory, file name, column names, rows).
  The two COMPR.AR adapters create the folder first (\<open>os.makedirs(output_dir,
  exist_ok=True)\<close>) and have no error path for the write: there \<open>os.makedirs\<close>, the write
  and the browser's start are taken to succeed.  The gazette adapter does not create the
  folder and re-raises what \<open>df.to_excel\<close> raises: its write can fail (see there).
  A run ends with a result (the count returned, or the exception raised), the record list
  as it is when the run ends, and the events it caused.
\<close>

datatype cell = CStr "ustr option" | CBool bool

datatype 'r event =
    Poll bool
  | Progress int
  | Append 'r
  | Write ustr ustr "ustr list" "cell list list"

record 'r run =
  run_result :: "error + nat"
  run_records :: "'r list"
  run_events :: "'r event list"

text \<open>
  \<open>is_cancelled: Optional[Callable[[], bool]]\<close>: when present, the function gives the
  answer to the poll with the given number (0 for the first call); any sequence of answers
  is some such function.  \<open>if is_cancelled and is_cancelled()\<close> calls it only when present.
\<close>

type_synonym canceller = "(nat \<Rightarrow> bool) option"

definition is_cancelled_now :: "canceller \<Rightarrow> nat \<Rightarrow> bool" where
  "is_cancelled_now canc polls = (case canc of None \<Rightarrow> False | Some f \<Rightarrow> f polls)"

definition poll_ev :: "canceller \<Rightarrow> nat \<Rightarrow> 'r event list" where
  "poll_ev canc polls = (case canc of None \<Rightarrow> [] | Some f \<Rightarrow> [Poll (f polls)])"

definition polled :: "canceller \<Rightarrow> nat \<Rightarrow> nat" where
  "polled canc polls = (case canc of None \<Rightarrow> polls | Some f \<Rightarrow> Suc polls)"

text \<open>
  \<open>if progress_callback: progress_callback(n)\<close>; the flag says whether a callback was
  passed.
\<close>

definition report :: "bool \<Rightarrow> int \<Rightarrow> 'r event list" where
  "report progress_callback n = (if progress_callback then [Progress n] else [])"

text \<open>
  Float arithmetic.  \<open>a / b\<close> on two ints is the double nearest to the quotient;
  an int that meets a float is converted first; \<open>int(x)\<close> truncates towards zero.
\<close>

definition py_float :: "pyrt \<Rightarrow> int \<Rightarrow> rat" where
  "py_float rt n = rt_round rt (of_int n)"

definition int_truediv :: "pyrt \<Rightarrow> int \<Rightarrow> int \<Rightarrow> rat" where
  "int_truediv rt a b = rt_round rt (of_int a / of_int b)"

definition float_div_int :: "pyrt \<Rightarrow> rat \<Rightarrow> int \<Rightarrow> rat" where
  "float_div_int rt x b = rt_round rt (x / py_float rt b)"

definition int_add_float :: "pyrt \<Rightarrow> int \<Rightarrow> rat \<Rightarrow> rat" where
  "int_add_float rt a x = rt_round rt (py_float rt a + x)"

definition float_mul_int :: "pyrt \<Rightarrow> rat \<Rightarrow> int \<Rightarrow> rat" where
  "float_mul_int rt x b = rt_round rt (x * py_float rt b)"

definition py_trunc :: "rat \<Rightarrow> int" where
  "py_trunc x = (if 0 \<le> x then \<lfloor>x\<rfloor> else \<lceil>x\<rceil>)"

text \<open>The observations of a run that the claims speak about.\<close>

fun progress_of :: "'r event list \<Rightarrow> int list" where
  "progress_of [] = []"
| "progress_of (Progress n # es) = n # progress_of es"
| "progress_of (e # es) = progress_of es"

fun appended :: "'r event list \<Rightarrow> 'r list" where
  "appended [] = []"
| "appended (Append r # es) = r # appended es"
| "appended (e # es) = appended es"

fun written :: "'r event list \<Rightarrow> (ustr \<times> ustr \<times> ustr list \<times> cell list list) list" where
  "written [] = []"
| "written (Write d f cols rows # es) = (d, f, cols, rows) # written es"
| "written (e # es) = written es"

text \<open>The events before, and after, the first poll that answered true.\<close>

fun before_cancel :: "'r event list \<Rightarrow> 'r event list" where
  "before_cancel [] = []"
| "before_cancel (Poll True # es) = []"
| "before_cancel (e # es) = e # before_cancel es"

fun after_cancel :: "'r event list \<Rightarrow> 'r event list" where
  "after_cancel [] = []"
| "after_cancel (Poll True # es) = es"
| "after_cancel (e # es) = after_cancel es"

fun cancel_seen :: "'r event list \<Rightarrow> bool" where
  "cancel_seen [] = False"
| "cancel_seen (Poll True # es) = True"
| "cancel_seen (e # es) = cancel_seen es"

section \<open>COMPR.AR over HTTP: \<open>scrapers/comprar.py\<close>\<close>

text \<open>
  A listing row, as \<open>_extract_list_rows_from_soup\<close> builds it, and the dictionary of a
  detail page, as \<open>extract_convocatoria_fields\<close> builds it (fields prefixed \<open>d_\<close>; the
  empty dictionary \<open>{}\<close> answers \<open>None\<close> to every \<open>.get\<close>, like \<open>empty_detail\<close>).
\<close>

record list_row =
  numero_proceso_list :: "ustr option"
  nombre_proceso_list :: "ustr option"
  tipo_proceso_list :: "ustr option"
  fecha_apertura_list :: "ustr option"
  estado_list :: "ustr option"
  unidad_ejecutora_list :: "ustr option"
  saf_list :: "ustr option"
  detalle_url :: "ustr option"

record detail =
  d_numero_proceso :: "ustr option"
  d_expediente :: "ustr option"
  d_nombre_proceso :: "ustr option"
  d_tipo_proceso :: "ustr option"
  d_fecha_apertura :: "ustr option"
  d_estado :: "ustr option"
  d_unidad_ejecutora :: "ustr option"
  d_saf :: "ustr option"
  d_detalle_productos :: "ustr option"
  d_pliego_nombre :: "ustr option"
  d_pliego_url :: "ustr option"
  d_url :: "ustr option"

definition empty_detail :: detail where
  "empty_detail = \<lparr> d_numero_proceso = None, d_expediente = None, d_nombre_proceso = None,
     d_tipo_proceso = None, d_fecha_apertura = None, d_estado = None,
     d_unidad_ejecutora = None, d_saf = None, d_detalle_productos = None,
     d_pliego_nombre = None, d_pliego_url = None, d_url = None \<rparr>"

text \<open>The merged record of both COMPR.AR adapters (the key \<open>es_tic\<close> is \<open>marca_es_tic\<close>).\<close>

record proceso =
  numero_proceso :: "ustr option"
  expediente :: "ustr option"
  nombre_proceso :: "ustr option"
  tipo_proceso :: "ustr option"
  fecha_apertura :: "ustr option"
  estado :: "ustr option"
  unidad_ejecutora :: "ustr option"
  saf :: "ustr option"
  detalle_productos :: "ustr option"
  pliego_nombre :: "ustr option"
  pliego_url :: "ustr option"
  url_detalle :: "ustr option"
  marca_es_tic :: bool

text \<open>
  A fetched listing page, by what the parsers read from it: \<open>_parse_total_results\<close>,
  \<open>_extract_list_rows_from_soup\<close>, \<open>_parse_simple_pager_links\<close>, \<open>_parse_pager_target\<close>
  and \<open>_collect_form_state\<close>.
\<close>

record soup =
  total_results :: "nat option"
  list_rows :: "list_row list"
  simple_pager_links :: "ustr list"
  pager_target :: "ustr option"
  form_state :: "(ustr \<times> ustr) list"

text \<open>
  The network.  Every request either raises (\<open>requests\<close> errors, \<open>raise_for_status\<close>) or
  gives a page; requests that the program repeats carry the loop index, since the server
  may answer differently each time.
  \<^item> \<open>get_listing\<close>: \<open>session.get(COMPRAS_LIST_URL)\<close>, page 1;
  \<^item> \<open>get_page idx url\<close>: the GET of a simple pager link;
  \<^item> \<open>post_page cur target page\<close>: the POST of the form state of \<open>cur\<close> with
    \<open>__EVENTTARGET = target\<close> and \<open>__EVENTARGUMENT = Page$page\<close>;
  \<^item> \<open>scrape_convocatoria_detail idx href\<close>, which raises or returns the dictionary;
  \<^item> \<open>fetch_detalle_proceso_via_postback idx numero\<close>, which raises or returns
    \<open>Optional[dict]\<close>.
\<close>

record http_env =
  get_listing :: "error + soup"
  get_page :: "nat \<Rightarrow> ustr \<Rightarrow> error + soup"
  post_page :: "soup \<Rightarrow> ustr \<Rightarrow> nat \<Rightarrow> error + soup"
  scrape_convocatoria_detail :: "nat \<Rightarrow> ustr \<Rightarrow> error + detail"
  fetch_detalle_proceso_via_postback :: "nat \<Rightarrow> ustr \<Rightarrow> error + detail option"

subsection \<open>The list-page walker \<open>_iter_compras_pages\<close>\<close>

text \<open>
  \<^verbatim>\<open>
  total_results = _parse_total_results(soup)
  first_rows = _extract_list_rows_from_soup(soup)
  page_size = len(first_rows)
  total_pages: Optional[int] = None
  if total_results is not None and page_size:
      total_pages = (total_results + page_size - 1) // page_size
  \<close>
\<close>

definition total_pages_of :: "soup \<Rightarrow> nat option" where
  "total_pages_of sp =
     (let page_size = length (list_rows sp) in
      case total_results sp of
        None \<Rightarrow> None
      | Some n \<Rightarrow> if page_size \<noteq> 0 then Some ((n + page_size - 1) div page_size) else None)"

text \<open>\<open>max_pages is not None and idx > max_pages\<close>.\<close>

definition over_max :: "int option \<Rightarrow> nat \<Rightarrow> bool" where
  "over_max max_pages idx = (case max_pages of None \<Rightarrow> False | Some m \<Rightarrow> int idx > m)"

text \<open>
  \<^verbatim>\<open>
  for idx, url in enumerate(simple_links, start=2):
      if max_pages is not None and idx > max_pages:
          break
      r = session.get(url, headers=DEFAULT_HEADERS, timeout=30)
      r.raise_for_status()
      soups.append(BeautifulSoup(r.text, "html.parser"))
  return soups
  \<close>
\<close>

fun simple_links_loop ::
  "http_env \<Rightarrow> int option \<Rightarrow> nat \<Rightarrow> ustr list \<Rightarrow> soup list \<Rightarrow> error + soup list" where
  "simple_links_loop env max_pages idx [] soups = Inr soups"
| "simple_links_loop env max_pages idx (url # urls) soups =
     (if over_max max_pages idx then Inr soups
      else case get_page env idx url of
             Inl e \<Rightarrow> Inl e
           | Inr sp \<Rightarrow> simple_links_loop env max_pages (Suc idx) urls (soups @ [sp]))"

text \<open>
  \<^verbatim>\<open>
  current_soup = soup
  for page in range(2, total_pages + 1):
      if max_pages is not None and page > max_pages:
          break
      form_data = _collect_form_state(current_soup)
      form_data["__EVENTTARGET"] = pager_target
      form_data["__EVENTARGUMENT"] = f"Page${page}"
      r = session.post(COMPRAS_LIST_URL, data=form_data, ...)
      r.raise_for_status()
      current_soup = BeautifulSoup(r.text, "html.parser")
      soups.append(current_soup)
  return soups
  \<close>
\<close>

fun postback_loop ::
  "http_env \<Rightarrow> int option \<Rightarrow> ustr \<Rightarrow> nat list \<Rightarrow> soup \<Rightarrow> soup list \<Rightarrow> error + soup list" where
  "postback_loop env max_pages target [] current_soup soups = Inr soups"
| "postback_loop env max_pages target (page # pages) current_soup soups =
     (if over_max max_pages page then Inr soups
      else case post_page env current_soup target page of
             Inl e \<Rightarrow> Inl e
           | Inr sp \<Rightarrow> postback_loop env max_pages target pages sp (soups @ [sp]))"

text \<open>
  \<^verbatim>\<open>
  resp = session.get(COMPRAS_LIST_URL, ...); resp.raise_for_status()
  soup = BeautifulSoup(resp.text, "html.parser"); soups.append(soup)
  ...
  simple_links = _parse_simple_pager_links(soup)
  if simple_links:
      ... return soups
  pager_target = _parse_pager_target(soup)
  if not pager_target or not total_pages or total_pages <= 1:
      return soups
  ...
  \<close>
\<close>

definition iter_compras_pages :: "http_env \<Rightarrow> int option \<Rightarrow> error + soup list" where
  "iter_compras_pages env max_pages =
     (case get_listing env of
        Inl e \<Rightarrow> Inl e
      | Inr sp \<Rightarrow>
          if simple_pager_links sp \<noteq> [] then
            simple_links_loop env max_pages 2 (simple_pager_links sp) [sp]
          else
            (case (pager_target sp, total_pages_of sp) of
               (Some target, Some total_pages) \<Rightarrow>
                 if target = [] \<or> total_pages \<le> 1 then Inr [sp]
                 else postback_loop env max_pages target [2 ..< total_pages + 1] sp [sp]
             | _ \<Rightarrow> Inr [sp]))"

subsection \<open>The adapter \<open>scrape_comprar_tics\<close>\<close>

text \<open>
  The detail of one row (lines 1025 to 1054): by URL when the row has one, else by postback
  on the process number, else nothing; an exception of either fetch is caught and leaves
  \<open>{}\<close>, and so does a postback that returns \<open>None\<close> (\<open>... or {}\<close>).
\<close>

definition detail_for :: "http_env \<Rightarrow> nat \<Rightarrow> list_row \<Rightarrow> detail" where
  "detail_for env idx row =
     (if truthy (detalle_url row) then
        (case scrape_convocatoria_detail env idx (str_or_empty (detalle_url row)) of
           Inl exc \<Rightarrow> empty_detail
         | Inr d \<Rightarrow> d)
      else if truthy (numero_proceso_list row) then
        (case fetch_detalle_proceso_via_postback env idx (str_or_empty (numero_proceso_list row)) of
           Inl exc \<Rightarrow> empty_detail
         | Inr None \<Rightarrow> empty_detail
         | Inr (Some d) \<Rightarrow> d)
      else empty_detail)"

text \<open>
  \<^verbatim>\<open>
  merged = {
      "numero_proceso": detail_data.get("numero_proceso") or row.get("numero_proceso_list"),
      "expediente": detail_data.get("expediente"),
      "nombre_proceso": detail_data.get("nombre_proceso") or row.get("nombre_proceso_list"),
      "tipo_proceso": detail_data.get("tipo_proceso") or row.get("tipo_proceso_list"),
      "fecha_apertura": detail_data.get("fecha_apertura") or row.get("fecha_apertura_list"),
      "estado": detail_data.get("estado") or row.get("estado_list"),
      "unidad_ejecutora": detail_data.get("unidad_ejecutora") or row.get("unidad_ejecutora_list"),
      "saf": detail_data.get("saf") or row.get("saf_list"),
      "detalle_productos": detail_data.get("detalle_productos"),
      "pliego_nombre": detail_data.get("pliego_nombre"),
      "pliego_url": detail_data.get("pliego_url"),
      "url_detalle": detail_data.get("url") or detalle_url,
  }
  texto_tic = " ".join(t for t in [merged.get("detalle_productos") or "",
                                   merged.get("nombre_proceso") or ""] if t)
  merged["es_tic"] = es_tic(texto_tic)
  \<close>
\<close>

definition merge_row :: "pyrt \<Rightarrow> list_row \<Rightarrow> detail \<Rightarrow> proceso" where
  "merge_row rt row detail_data =
     (let nombre = py_or (d_nombre_proceso detail_data) (nombre_proceso_list row);
          productos = d_detalle_productos detail_data
      in \<lparr> numero_proceso = py_or (d_numero_proceso detail_data) (numero_proceso_list row),
           expediente = d_expediente detail_data,
           nombre_proceso = nombre,
           tipo_proceso = py_or (d_tipo_proceso detail_data) (tipo_proceso_list row),
           fecha_apertura = py_or (d_fecha_apertura detail_data) (fecha_apertura_list row),
           estado = py_or (d_estado detail_data) (estado_list row),
           unidad_ejecutora = py_or (d_unidad_ejecutora detail_data) (unidad_ejecutora_list row),
           saf = py_or (d_saf detail_data) (saf_list row),
           detalle_productos = productos,
           pliego_nombre = d_pliego_nombre detail_data,
           pliego_url = d_pliego_url detail_data,
           url_detalle = py_or (d_url detail_data) (detalle_url row),
           marca_es_tic = es_tic rt (Some (texto_tic productos nombre)) \<rparr>)"

text \<open>\<open>progress = int(idx * 100 / total)\<close> (\<open>total\<close> is \<open>total_rows\<close> here).\<close>

definition row_progress :: "pyrt \<Rightarrow> nat \<Rightarrow> nat \<Rightarrow> int" where
  "row_progress rt idx total_rows = py_trunc (int_truediv rt (int idx * 100) (int total_rows))"

text \<open>
  \<^verbatim>\<open>
  for idx, row in enumerate(list_rows, start=1):
      if is_cancelled and is_cancelled():
          break
      ... detail_data ... merged ...
      records.append(merged)
      if progress_callback:
          progress = int(idx * 100 / total)
          progress_callback(progress)
  \<close>
  The loop returns the record list and the events it caused.
\<close>

fun rows_loop ::
  "pyrt \<Rightarrow> http_env \<Rightarrow> bool \<Rightarrow> canceller \<Rightarrow> nat \<Rightarrow> nat \<Rightarrow> list_row list \<Rightarrow> nat
     \<Rightarrow> proceso list \<Rightarrow> proceso list \<times> proceso event list" where
  "rows_loop rt env progress_callback canc total_rows idx [] polls records = (records, [])"
| "rows_loop rt env progress_callback canc total_rows idx (row # rows) polls records =
     (if is_cancelled_now canc polls then (records, poll_ev canc polls)
      else
        let merged = merge_row rt row (detail_for env idx row) in
        case rows_loop rt env progress_callback canc total_rows (Suc idx) rows (polled canc polls)
               (records @ [merged]) of
          (recs, evs) \<Rightarrow>
            (recs, poll_ev canc polls @ [Append merged]
                     @ report progress_callback (row_progress rt idx total_rows) @ evs))"

text \<open>The spreadsheet of \<open>pd.DataFrame(records)\<close>: the keys of \<open>merged\<close>, in order.\<close>

definition comprar_columns :: "ustr list" where
  "comprar_columns =
     [py ''numero_proceso'', py ''expediente'', py ''nombre_proceso'', py ''tipo_proceso'',
      py ''fecha_apertura'', py ''estado'', py ''unidad_ejecutora'', py ''saf'',
      py ''detalle_productos'', py ''pliego_nombre'', py ''pliego_url'', py ''url_detalle'',
      py ''es_tic'']"

definition comprar_cells :: "proceso \<Rightarrow> cell list" where
  "comprar_cells r =
     [CStr (numero_proceso r), CStr (expediente r), CStr (nombre_proceso r),
      CStr (tipo_proceso r), CStr (fecha_apertura r), CStr (estado r),
      CStr (unidad_ejecutora r), CStr (saf r), CStr (detalle_productos r),
      CStr (pliego_nombre r), CStr (pliego_url r), CStr (url_detalle r),
      CBool (marca_es_tic r)]"

text \<open>\<open>f"comprar_tics_{start_str}_{end_str}.xlsx"\<close> with \<open>strftime("%Y%m%d")\<close>.\<close>

definition comprar_filename :: "pyrt \<Rightarrow> int \<Rightarrow> int \<Rightarrow> ustr" where
  "comprar_filename rt start_date end_date =
     py ''comprar_tics_'' @ rt_strftime rt start_date @ py ''_'' @ rt_strftime rt end_date
       @ py ''.xlsx''"

text \<open>
  \<^verbatim>\<open>
  def scrape_comprar_tics(start_date, end_date, output_dir,
                          progress_callback=None, is_cancelled=None) -> int:
      session = requests.Session()
      list_soups = _iter_compras_pages(session)
      list_rows = []
      for sp in list_soups:
          list_rows.extend(_extract_list_rows_from_soup(sp))
      total = len(list_rows)
      if total == 0:
          if progress_callback: progress_callback(100)
          return 0
      records = []
      for idx, row in enumerate(list_rows, start=1): ...
      if not records:
          if progress_callback: progress_callback(100)
          return 0
      df = pd.DataFrame(records)
      ... filename = f"comprar_tics_{start_str}_{end_str}.xlsx"
      df.to_excel(output_path, index=False, engine="openpyxl")
      if progress_callback: progress_callback(100)
      return len(df)
  \<close>
  Dates are given by their ordinals.
\<close>

definition scrape_comprar_tics ::
  "pyrt \<Rightarrow> http_env \<Rightarrow> int \<Rightarrow> int \<Rightarrow> ustr \<Rightarrow> bool \<Rightarrow> canceller \<Rightarrow> proceso run" where
  "scrape_comprar_tics rt env start_date end_date output_dir progress_callback is_cancelled =
     (case iter_compras_pages env None of
        Inl e \<Rightarrow> \<lparr> run_result = Inl e, run_records = [], run_events = [] \<rparr>
      | Inr list_soups \<Rightarrow>
          let rows = concat (map list_rows list_soups);
              total_rows = length rows
          in if total_rows = 0 then
               \<lparr> run_result = Inr 0, run_records = [],
                 run_events = report progress_callback 100 \<rparr>
             else
               (case rows_loop rt env progress_callback is_cancelled total_rows 1 rows 0 [] of
                  (records, evs) \<Rightarrow>
                    if records = [] then
                      \<lparr> run_result = Inr 0, run_records = records,
                        run_events = evs @ report progress_callback 100 \<rparr>
                    else
                      \<lparr> run_result = Inr (length records), run_records = records,
                        run_events = evs
                          @ [Write output_dir (comprar_filename rt start_date end_date)
                               comprar_columns (map comprar_cells records)]
                          @ report progress_callback 100 \<rparr>))"

section \<open>COMPR.AR with a driven browser: \<open>scrapers/comprar_bot.py\<close>\<close>

text \<open>
  A row of the listing grid, as \<open>obtener_filas_listado\<close> builds it (fields prefixed
  \<open>f_\<close>).
\<close>

record fila =
  f_numero_proceso :: ustr
  f_objeto :: "ustr option"
  f_tipo :: "ustr option"
  f_fecha_apertura :: "ustr option"
  f_estado :: "ustr option"
  f_unidad_ejecutora :: "ustr option"
  f_saf :: "ustr option"

text \<open>
  The browser.  \<open>ir_a_listado\<close> raises (a timeout) or shows page 1.  A listing page is the
  list of its rows, each with what \<open>scrapear_detalle_proceso\<close> does when the row is
  visited: it raises, returns \<open>None\<close>, or returns the dictionary of the detail page.
  \<open>ir_a_pagina(driver, n)\<close> succeeds exactly when the list has a further page.
\<close>

type_synonym pagina = "(fila \<times> (error + detail option)) list"

type_synonym robot_env = "error + pagina list"

text \<open>
  \<^verbatim>\<open>
  registro = {
      "numero_proceso": detalle.get("numero_proceso") or numero,
      "expediente": detalle.get("expediente"),
      "nombre_proceso": detalle.get("nombre_proceso") or fila.get("objeto"),
      "tipo_proceso": detalle.get("tipo_proceso") or fila.get("tipo"),
      "fecha_apertura": detalle.get("fecha_apertura") or fila.get("fecha_apertura"),
      "estado": fila.get("estado") or detalle.get("estado"),
      "unidad_ejecutora": fila.get("unidad_ejecutora") or detalle.get("unidad_ejecutora"),
      "saf": fila.get("saf") or detalle.get("saf"),
      "detalle_productos": detalle.get("detalle_productos"),
      "pliego_nombre": detalle.get("pliego_nombre"),
      "pliego_url": detalle.get("pliego_url"),
      "url_detalle": detalle.get("url"),
  }
  texto_tic = " ".join(t for t in [registro.get("nombre_proceso") or "",
                                   registro.get("detalle_productos") or ""] if t)
  registro["es_tic"] = es_tic(texto_tic)
  \<close>
\<close>

definition registro_de :: "pyrt \<Rightarrow> fila \<Rightarrow> detail \<Rightarrow> proceso" where
  "registro_de rt fila detalle =
     (let nombre = py_or (d_nombre_proceso detalle) (f_objeto fila);
          productos = d_detalle_productos detalle
      in \<lparr> numero_proceso = py_or (d_numero_proceso detalle) (Some (f_numero_proceso fila)),
           expediente = d_expediente detalle,
           nombre_proceso = nombre,
           tipo_proceso = py_or (d_tipo_proceso detalle) (f_tipo fila),
           fecha_apertura = py_or (d_fecha_apertura detalle) (f_fecha_apertura fila),
           estado = py_or (f_estado fila) (d_estado detalle),
           unidad_ejecutora = py_or (f_unidad_ejecutora fila) (d_unidad_ejecutora detalle),
           saf = py_or (f_saf fila) (d_saf detalle),
           detalle_productos = productos,
           pliego_nombre = d_pliego_nombre detalle,
           pliego_url = d_pliego_url detalle,
           url_detalle = d_url detalle,
           marca_es_tic = es_tic rt (Some (texto_tic nombre productos)) \<rparr>)"

text \<open>
  The state of \<open>ejecutar_robot\<close> between rows: the records, \<open>total_procesos\<close>, the number
  of polls made, and whether the function has returned (the \<open>return\<close> on cancellation).
  \<^verbatim>\<open>
  for idx, fila in enumerate(filas):
      if is_cancelled and is_cancelled():
          return pd.DataFrame(registros) if registros else pd.DataFrame()
      numero = fila["numero_proceso"]
      try:
          detalle = scrapear_detalle_proceso(driver, numero)
      except Exception as e:
          detalle = None
      if not detalle:
          continue
      registro = {...}; registro["es_tic"] = es_tic(texto_tic)
      registros.append(registro)
      total_procesos += 1
      if progress_callback:
          progress = min(total_procesos, 99)
          progress_callback(progress)
  \<close>
\<close>

record robot_state =
  registros :: "proceso list"
  total_procesos :: nat
  rb_polls :: nat
  returned :: bool

fun filas_loop ::
  "pyrt \<Rightarrow> bool \<Rightarrow> canceller \<Rightarrow> pagina \<Rightarrow> robot_state
     \<Rightarrow> robot_state \<times> proceso event list" where
  "filas_loop rt progress_callback canc [] st = (st, [])"
| "filas_loop rt progress_callback canc ((fila, outcome) # filas) st =
     (if is_cancelled_now canc (rb_polls st) then
        (st\<lparr>returned := True\<rparr>, poll_ev canc (rb_polls st))
      else
        let st1 = st\<lparr>rb_polls := polled canc (rb_polls st)\<rparr> in
        case (case outcome of Inl e \<Rightarrow> None | Inr detalle \<Rightarrow> detalle) of
          None \<Rightarrow>
            (case filas_loop rt progress_callback canc filas st1 of
               (st', evs) \<Rightarrow> (st', poll_ev canc (rb_polls st) @ evs))
        | Some detalle \<Rightarrow>
            let registro = registro_de rt fila detalle;
                st2 = st1\<lparr>registros := registros st1 @ [registro],
                          total_procesos := Suc (total_procesos st1)\<rparr>
            in case filas_loop rt progress_callback canc filas st2 of
                 (st', evs) \<Rightarrow>
                   (st', poll_ev canc (rb_polls st) @ [Append registro]
                           @ report progress_callback (min (int (total_procesos st2)) 99)
                           @ evs))"

text \<open>
  \<^verbatim>\<open>
  pagina = 1
  while True:
      html = driver.page_source
      filas = obtener_filas_listado(html)
      if not filas:
          break
      for idx, fila in enumerate(filas): ...
      pagina += 1
      if max_paginas is not None and pagina > max_paginas:
          break
      if not ir_a_pagina(driver, pagina):
          break
  \<close>
  The first argument list holds the page shown and the pages that follow it.
\<close>

fun paginas_loop ::
  "pyrt \<Rightarrow> int option \<Rightarrow> bool \<Rightarrow> canceller \<Rightarrow> nat \<Rightarrow> pagina list \<Rightarrow> robot_state
     \<Rightarrow> robot_state \<times> proceso event list" where
  "paginas_loop rt max_paginas progress_callback canc pagina [] st = (st, [])"
| "paginas_loop rt max_paginas progress_callback canc pagina (filas # rest) st =
     (if filas = [] then (st, [])
      else
        case filas_loop rt progress_callback canc filas st of
          (st1, evs1) \<Rightarrow>
            if returned st1 then (st1, evs1)
            else if over_max max_paginas (Suc pagina) then (st1, evs1)
            else if rest = [] then (st1, evs1)
            else
              (case paginas_loop rt max_paginas progress_callback canc (Suc pagina) rest st1 of
                 (st2, evs2) \<Rightarrow> (st2, evs1 @ evs2)))"

text \<open>
  \<open>ejecutar_robot\<close> returns the records as a data frame (an empty one when there is none),
  or raises what \<open>ir_a_listado\<close> raised; the \<open>finally\<close> block only closes the browser.
\<close>

definition ejecutar_robot ::
  "pyrt \<Rightarrow> robot_env \<Rightarrow> int option \<Rightarrow> bool \<Rightarrow> canceller
     \<Rightarrow> error + (proceso list \<times> proceso event list)" where
  "ejecutar_robot rt env max_paginas progress_callback is_cancelled =
     (case env of
        Inl e \<Rightarrow> Inl e
      | Inr pages \<Rightarrow>
          (case paginas_loop rt max_paginas progress_callback is_cancelled 1 pages
                  \<lparr> registros = [], total_procesos = 0, rb_polls = 0, returned = False \<rparr> of
             (st, evs) \<Rightarrow> Inr (registros st, evs)))"

text \<open>
  The exported sheet: \<open>df.rename(columns=columnas_export)\<close> and
  \<open>df[list(columnas_export.values())]\<close>, which keeps twelve columns (\<open>pliego_url\<close> is not
  among them).  250 is the code point of the accented u, 176 of the degree sign.
\<close>

definition robot_columns :: "ustr list" where
  "robot_columns =
     [py ''N'' @ [250] @ py ''mero proceso'', py ''Expediente'', py ''Nombre proceso'',
      py ''Tipo de Proceso'', py ''Fecha de apertura'', py ''Estado'', py ''Unidad Ejecutora'',
      py ''Servicio Administrativo Financiero'', py ''Detalle de productos o servicios'',
      py ''Pliego N'' @ [176], py ''LINK'', py ''Es TIC'']"

definition robot_cells :: "proceso \<Rightarrow> cell list" where
  "robot_cells r =
     [CStr (numero_proceso r), CStr (expediente r), CStr (nombre_proceso r),
      CStr (tipo_proceso r), CStr (fecha_apertura r), CStr (estado r),
      CStr (unidad_ejecutora r), CStr (saf r), CStr (detalle_productos r),
      CStr (pliego_nombre r), CStr (url_detalle r), CBool (marca_es_tic r)]"

definition robot_filename :: "pyrt \<Rightarrow> int \<Rightarrow> int \<Rightarrow> ustr" where
  "robot_filename rt start_date end_date =
     py ''comprar_selenium_'' @ rt_strftime rt start_date @ py ''_'' @ rt_strftime rt end_date
       @ py ''.xlsx''"

text \<open>
  \<^verbatim>\<open>
  def scrape_comprar_tics_robot(start_date, end_date, output_dir,
                                progress_callback=None, is_cancelled=None) -> int:
      os.makedirs(output_dir, exist_ok=True)
      df = ejecutar_robot(
          #max_paginas=None,
          max_paginas=1,
          progress_callback=progress_callback,
          is_cancelled=is_cancelled,
      )
      if df.empty:
          if progress_callback: progress_callback(100)
          return 0
      ...
      output_file = os.path.join(output_dir, f"comprar_selenium_{start_str}_{end_str}.xlsx")
      df.to_excel(output_file, index=False, engine="openpyxl")
      if progress_callback: progress_callback(100)
      return len(df)
  \<close>
\<close>

definition scrape_comprar_tics_robot ::
  "pyrt \<Rightarrow> robot_env \<Rightarrow> int \<Rightarrow> int \<Rightarrow> ustr \<Rightarrow> bool \<Rightarrow> canceller \<Rightarrow> proceso run" where
  "scrape_comprar_tics_robot rt env start_date end_date output_dir progress_callback is_cancelled =
     (case ejecutar_robot rt env (Some 1) progress_callback is_cancelled of
        Inl e \<Rightarrow> \<lparr> run_result = Inl e, run_records = [], run_events = [] \<rparr>
      | Inr (df, evs) \<Rightarrow>
          if df = [] then
            \<lparr> run_result = Inr 0, run_records = df,
              run_events = evs @ report progress_callback 100 \<rparr>
          else
            \<lparr> run_result = Inr (length df), run_records = df,
              run_events = evs
                @ [Write output_dir (robot_filename rt start_date end_date)
                     robot_columns (map robot_cells df)]
                @ report progress_callback 100 \<rparr>)"

section \<open>The gazette adapter: \<open>scrapers/boletin_tercera.py\<close>\<close>

text \<open>
  A notice of the day's listing, as \<open>_get_listado_avisos\<close> builds it; the dictionary
  \<open>_parse_aviso\<close> returns; and the record the adapter keeps, which adds two keys of the
  notice to that dictionary.
\<close>

record aviso =
  a_titulo_listado :: ustr
  a_url :: ustr
  a_fecha_edicion :: ustr

record parsed_aviso =
  p_organismo :: "ustr option"
  p_proceso :: "ustr option"
  p_fecha_publicacion :: "ustr option"
  p_resumen_proyecto :: "ustr option"
  p_objeto_resumen :: "ustr option"
  p_url :: "ustr option"

record registro_boletin =
  b_organismo :: "ustr option"
  b_proceso :: "ustr option"
  b_fecha_publicacion :: "ustr option"
  b_resumen_proyecto :: "ustr option"
  b_objeto_resumen :: "ustr option"
  b_url :: "ustr option"
  b_titulo_listado :: "ustr option"
  b_fecha_edicion :: "ustr option"

text \<open>
  The site and the file system.  \<open>_get_listado_avisos(fecha)\<close> catches connection errors
  and bad statuses and returns \<open>[]\<close> for them, so it is a function from the date to a list;
  \<open>_parse_aviso(url)\<close> raises or returns the dictionary, and is asked once per notice of a
  day; \<open>df.to_excel(os.path.join(output_dir, filename))\<close> writes the file or raises (the
  folder may not exist: this adapter does not create it).
\<close>

record boletin_env =
  get_listado_avisos :: "int \<Rightarrow> aviso list"
  parse_aviso :: "int \<Rightarrow> nat \<Rightarrow> aviso \<Rightarrow> error + parsed_aviso"
  to_excel :: "ustr \<Rightarrow> ustr \<Rightarrow> error option"

text \<open>
  Dates are given by their proleptic Gregorian ordinals (\<open>date.toordinal()\<close>), from 1 to
  \<open>date.max.toordinal()\<close>, which is 3652059 (31 December 9999); \<open>date.max +
  timedelta(days=1)\<close> raises \<open>OverflowError\<close>.
\<close>

definition date_max :: int where
  "date_max = 3652059"

text \<open>
  \<^verbatim>\<open>
  data = _parse_aviso(aviso["url"])
  data["titulo_listado"] = aviso["titulo_listado"]
  data["fecha_edicion"] = aviso["fecha_edicion"]
  \<close>
\<close>

definition registro_aviso :: "parsed_aviso \<Rightarrow> aviso \<Rightarrow> registro_boletin" where
  "registro_aviso data aviso =
     \<lparr> b_organismo = p_organismo data, b_proceso = p_proceso data,
       b_fecha_publicacion = p_fecha_publicacion data,
       b_resumen_proyecto = p_resumen_proyecto data,
       b_objeto_resumen = p_objeto_resumen data, b_url = p_url data,
       b_titulo_listado = Some (a_titulo_listado aviso),
       b_fecha_edicion = Some (a_fecha_edicion aviso) \<rparr>"

text \<open>
  \<^verbatim>\<open>
  frac = day_index / total_days
  pct = min(100, max(0, int(frac * 100)))
  \<close>
  for a day without notices, and for a notice
  \<^verbatim>\<open>
  frac = (day_index + (idx_aviso / n_av)) / total_days
  pct = min(100, max(0, int(frac * 100)))
  \<close>
\<close>

definition clamp_pct :: "int \<Rightarrow> int" where
  "clamp_pct x = min 100 (max 0 x)"

definition pct_of_frac :: "pyrt \<Rightarrow> rat \<Rightarrow> int" where
  "pct_of_frac rt fr = clamp_pct (py_trunc (float_mul_int rt fr 100))"

definition day_frac :: "pyrt \<Rightarrow> nat \<Rightarrow> int \<Rightarrow> rat" where
  "day_frac rt day_index total_days = int_truediv rt (int day_index) total_days"

definition aviso_frac :: "pyrt \<Rightarrow> nat \<Rightarrow> nat \<Rightarrow> nat \<Rightarrow> int \<Rightarrow> rat" where
  "aviso_frac rt day_index idx_aviso n_av total_days =
     float_div_int rt
       (int_add_float rt (int day_index) (int_truediv rt (int idx_aviso) (int n_av)))
       total_days"

definition day_pct :: "pyrt \<Rightarrow> nat \<Rightarrow> int \<Rightarrow> int" where
  "day_pct rt day_index total_days = pct_of_frac rt (day_frac rt day_index total_days)"

definition aviso_pct :: "pyrt \<Rightarrow> nat \<Rightarrow> nat \<Rightarrow> nat \<Rightarrow> int \<Rightarrow> int" where
  "aviso_pct rt day_index idx_aviso n_av total_days =
     pct_of_frac rt (aviso_frac rt day_index idx_aviso n_av total_days)"

text \<open>
  \<^verbatim>\<open>
  for idx_aviso, aviso in enumerate(avisos, start=1):
      if is_cancelled and is_cancelled():
          break
      try:
          data = _parse_aviso(aviso["url"])
      except Exception as e:
          continue
      data["titulo_listado"] = ...; data["fecha_edicion"] = ...
      registros.append(data)
      time.sleep(REQUEST_DELAY)
      if progress_callback:
          frac = (day_index + (idx_aviso / n_av)) / total_days
          pct = min(100, max(0, int(frac * 100)))
          progress_callback(pct)
  \<close>
  The loop returns the records, the number of polls made so far and its events.
\<close>

fun avisos_loop ::
  "pyrt \<Rightarrow> boletin_env \<Rightarrow> bool \<Rightarrow> canceller \<Rightarrow> int \<Rightarrow> int \<Rightarrow> nat \<Rightarrow> nat \<Rightarrow> nat
     \<Rightarrow> aviso list \<Rightarrow> nat \<Rightarrow> registro_boletin list
     \<Rightarrow> registro_boletin list \<times> nat \<times> registro_boletin event list" where
  "avisos_loop rt env progress_callback canc total_days fecha day_index n_av idx_aviso []
     polls regs = (regs, polls, [])"
| "avisos_loop rt env progress_callback canc total_days fecha day_index n_av idx_aviso
     (aviso # avisos) polls regs =
     (if is_cancelled_now canc polls then (regs, polled canc polls, poll_ev canc polls)
      else
        case parse_aviso env fecha idx_aviso aviso of
          Inl e \<Rightarrow>
            (case avisos_loop rt env progress_callback canc total_days fecha day_index n_av
                    (Suc idx_aviso) avisos (polled canc polls) regs of
               (regs', polls', evs) \<Rightarrow> (regs', polls', poll_ev canc polls @ evs))
        | Inr data \<Rightarrow>
            (case avisos_loop rt env progress_callback canc total_days fecha day_index n_av
                    (Suc idx_aviso) avisos (polled canc polls)
                    (regs @ [registro_aviso data aviso]) of
               (regs', polls', evs) \<Rightarrow>
                 (regs', polls',
                  poll_ev canc polls @ [Append (registro_aviso data aviso)]
                    @ report progress_callback
                        (aviso_pct rt day_index idx_aviso n_av total_days)
                    @ evs)))"

text \<open>
  \<^verbatim>\<open>
  fecha_actual = start_date
  day_index = 0
  while fecha_actual <= end_date:
      if is_cancelled and is_cancelled():
          break
      avisos = _get_listado_avisos(fecha_actual)
      n_av = len(avisos)
      if n_av == 0:
          day_index += 1
          if progress_callback:
              frac = day_index / total_days
              pct = min(100, max(0, int(frac * 100)))
              progress_callback(pct)
          fecha_actual += timedelta(days=1)
          continue
      for idx_aviso, aviso in enumerate(avisos, start=1): ...
      if is_cancelled and is_cancelled():
          break
      day_index += 1
      fecha_actual += timedelta(days=1)
  \<close>
  The loop returns the exception that ended it, if any (that of \<open>fecha_actual +=
  timedelta(days=1)\<close> on the last day there is), the records and its events.
\<close>

function dias_loop ::
  "pyrt \<Rightarrow> boletin_env \<Rightarrow> bool \<Rightarrow> canceller \<Rightarrow> int \<Rightarrow> int \<Rightarrow> int \<Rightarrow> nat \<Rightarrow> nat
     \<Rightarrow> registro_boletin list
     \<Rightarrow> error option \<times> registro_boletin list \<times> registro_boletin event list" where
  "dias_loop rt env progress_callback canc total_days end_date fecha_actual day_index polls regs =
     (if \<not> fecha_actual \<le> end_date then (None, regs, [])
      else if is_cancelled_now canc polls then (None, regs, poll_ev canc polls)
      else if get_listado_avisos env fecha_actual = [] then
        (if date_max \<le> fecha_actual then
           (Some OverflowError, regs,
            poll_ev canc polls
              @ report progress_callback (day_pct rt (Suc day_index) total_days))
         else
           case dias_loop rt env progress_callback canc total_days end_date (fecha_actual + 1)
                  (Suc day_index) (polled canc polls) regs of
             (exc, regs', evs) \<Rightarrow>
               (exc, regs', poll_ev canc polls
                         @ report progress_callback (day_pct rt (Suc day_index) total_days)
                         @ evs))
      else
        (case avisos_loop rt env progress_callback canc total_days fecha_actual day_index
                (length (get_listado_avisos env fecha_actual)) 1
                (get_listado_avisos env fecha_actual) (polled canc polls) regs of
           (regs1, polls1, evs1) \<Rightarrow>
             if is_cancelled_now canc polls1 then
               (None, regs1, poll_ev canc polls @ evs1 @ poll_ev canc polls1)
             else if date_max \<le> fecha_actual then
               (Some OverflowError, regs1, poll_ev canc polls @ evs1 @ poll_ev canc polls1)
             else
               (case dias_loop rt env progress_callback canc total_days end_date
                       (fecha_actual + 1) (Suc day_index) (polled canc polls1) regs1 of
                  (exc, regs', evs) \<Rightarrow>
                    (exc, regs', poll_ev canc polls @ evs1 @ poll_ev canc polls1 @ evs))))"
  by pat_completeness auto
termination
  by (relation "measure (\<lambda>(rt, env, cb, canc, total_days, end_date, fecha_actual, rest).
                  nat (end_date + 1 - fecha_actual))") auto

definition boletin_columns :: "ustr list" where
  "boletin_columns =
     [py ''organismo'', py ''proceso'', py ''fecha_publicacion'', py ''resumen_proyecto'',
      py ''objeto_resumen'', py ''url'', py ''titulo_listado'', py ''fecha_edicion'']"

definition boletin_cells :: "registro_boletin \<Rightarrow> cell list" where
  "boletin_cells r =
     [CStr (b_organismo r), CStr (b_proceso r), CStr (b_fecha_publicacion r),
      CStr (b_resumen_proyecto r), CStr (b_objeto_resumen r), CStr (b_url r),
      CStr (b_titulo_listado r), CStr (b_fecha_edicion r)]"

definition boletin_filename :: "pyrt \<Rightarrow> int \<Rightarrow> int \<Rightarrow> ustr" where
  "boletin_filename rt start_date end_date =
     py ''contrataciones_tercera_'' @ rt_strftime rt start_date @ py ''_''
       @ rt_strftime rt end_date @ py ''.xlsx''"

text \<open>
  \<^verbatim>\<open>
  def scrape_boletin_tercera(start_date, end_date, output_dir,
                             progress_callback=None, is_cancelled=None) -> int:
      if end_date < start_date:
          raise ValueError("end_date no puede ser menor que start_date")
      registros = []
      total_days = (end_date - start_date).days + 1
      if total_days <= 0:
          total_days = 1
      ... the loop over the days ...
      df = pd.DataFrame(registros)
      if df.empty:
          return 0
      filename = f"contrataciones_tercera_{start_str}_{end_str}.xlsx"
      output_file = os.path.join(output_dir, filename)
      try:
          df.to_excel(output_file, index=False, engine="openpyxl")
      except Exception as e:
          ...
          raise
      return len(df)
  \<close>
  An exception of the loop ends the run before the export; one of \<open>df.to_excel\<close> is
  re-raised, and then no file is written.
\<close>

definition scrape_boletin_tercera ::
  "pyrt \<Rightarrow> boletin_env \<Rightarrow> int \<Rightarrow> int \<Rightarrow> ustr \<Rightarrow> bool \<Rightarrow> canceller
     \<Rightarrow> registro_boletin run" where
  "scrape_boletin_tercera rt env start_date end_date output_dir progress_callback is_cancelled =
     (if end_date < start_date then
        \<lparr> run_result = Inl ValueError, run_records = [], run_events = [] \<rparr>
      else
        let total_days = (if end_date - start_date + 1 \<le> 0 then 1 else end_date - start_date + 1)
        in case dias_loop rt env progress_callback is_cancelled total_days end_date start_date
                  0 0 [] of
             (Some exc, regs, evs) \<Rightarrow>
               \<lparr> run_result = Inl exc, run_records = regs, run_events = evs \<rparr>
           | (None, regs, evs) \<Rightarrow>
               if regs = [] then
                 \<lparr> run_result = Inr 0, run_records = regs, run_events = evs \<rparr>
               else
                 (case to_excel env output_dir (boletin_filename rt start_date end_date) of
                    Some exc \<Rightarrow>
                      \<lparr> run_result = Inl exc, run_records = regs, run_events = evs \<rparr>
                  | None \<Rightarrow>
                      \<lparr> run_result = Inr (length regs), run_records = regs,
                        run_events = evs
                          @ [Write output_dir (boletin_filename rt start_date end_date)
                               boletin_columns (map boletin_cells regs)] \<rparr>))"

section \<open>Notions of the specification\<close>

text \<open>
  The cancel predicate becomes and stays true: once it has answered true, every later poll
  answers true.  (When no predicate is passed there is nothing to ask.)
\<close>

definition stays_cancelled :: "canceller \<Rightarrow> bool" where
  "stays_cancelled canc =
     (case canc of None \<Rightarrow> True | Some f \<Rightarrow> (\<forall>i j. i \<le> j \<and> f i \<longrightarrow> f j))"

text \<open>The events of a run with the name of the written file blanked.\<close>

fun forget_filename :: "'r event \<Rightarrow> 'r event" where
  "forget_filename (Write d f cols rows) = Write d [] cols rows"
| "forget_filename e = e"






text \<open>
  The records the HTTP adapter makes of rows numbered from \<open>idx\<close>, and the records the robot
  makes of the rows of a page: only of those whose detail was obtained.
\<close>

fun merged_from :: "pyrt \<Rightarrow> http_env \<Rightarrow> nat \<Rightarrow> list_row list \<Rightarrow> proceso list" where
  "merged_from rt env idx [] = []"
| "merged_from rt env idx (row # rows) =
     merge_row rt row (detail_for env idx row) # merged_from rt env (Suc idx) rows"



text \<open>
  A record as a row of the sheet should show it: under each column, the value of the field
  the column stands for.  The sheet of the HTTP adapter has the keys of the record as
  columns; the robot renames eleven of them and the classification, and leaves the address
  of the tender document out; the gazette adapter has the keys of its record.
\<close>

definition campos_comprar :: "proceso \<Rightarrow> (ustr \<times> cell) list" where
  "campos_comprar r =
     [(py ''numero_proceso'', CStr (numero_proceso r)),
      (py ''expediente'', CStr (expediente r)),
      (py ''nombre_proceso'', CStr (nombre_proceso r)),
      (py ''tipo_proceso'', CStr (tipo_proceso r)),
      (py ''fecha_apertura'', CStr (fecha_apertura r)),
      (py ''estado'', CStr (estado r)),
      (py ''unidad_ejecutora'', CStr (unidad_ejecutora r)),
      (py ''saf'', CStr (saf r)),
      (py ''detalle_productos'', CStr (detalle_productos r)),
      (py ''pliego_nombre'', CStr (pliego_nombre r)),
      (py ''pliego_url'', CStr (pliego_url r)),
      (py ''url_detalle'', CStr (url_detalle r)),
      (py ''es_tic'', CBool (marca_es_tic r))]"

definition campos_robot :: "proceso \<Rightarrow> (ustr \<times> cell) list" where
  "campos_robot r =
     [(py ''N'' @ [250] @ py ''mero proceso'', CStr (numero_proceso r)),
      (py ''Expediente'', CStr (expediente r)),
      (py ''Nombre proceso'', CStr (nombre_proceso r)),
      (py ''Tipo de Proceso'', CStr (tipo_proceso r)),
      (py ''Fecha de apertura'', CStr (fecha_apertura r)),
      (py ''Estado'', CStr (estado r)),
      (py ''Unidad Ejecutora'', CStr (unidad_ejecutora r)),
      (py ''Servicio Administrativo Financiero'', CStr (saf r)),
      (py ''Detalle de productos o servicios'', CStr (detalle_productos r)),
      (py ''Pliego N'' @ [176], CStr (pliego_nombre r)),
      (py ''LINK'', CStr (url_detalle r)),
      (py ''Es TIC'', CBool (marca_es_tic r))]"

definition campos_boletin :: "registro_boletin \<Rightarrow> (ustr \<times> cell) list" where
  "campos_boletin r =
     [(py ''organismo'', CStr (b_organismo r)),
      (py ''proceso'', CStr (b_proceso r)),
      (py ''fecha_publicacion'', CStr (b_fecha_publicacion r)),
      (py ''resumen_proyecto'', CStr (b_resumen_proyecto r)),
      (py ''objeto_resumen'', CStr (b_objeto_resumen r)),
      (py ''url'', CStr (b_url r)),
      (py ''titulo_listado'', CStr (b_titulo_listado r)),
      (py ''fecha_edicion'', CStr (b_fecha_edicion r))]"

text \<open>
  The positions, counted from 1, of the days without notices among the first \<open>n\<close> days
  from \<open>start_date\<close> on.
\<close>

definition dias_sin_avisos :: "boletin_env \<Rightarrow> int \<Rightarrow> nat \<Rightarrow> nat list" where
  "dias_sin_avisos env start_date n =
     filter (\<lambda>k. get_listado_avisos env (start_date + int k - 1) = []) [1 ..< Suc n]"

text \<open>
  What the proofs about progress need of double arithmetic: rounding to the nearest double
  is monotone, and the naturals up to \<open>N\<close> are doubles (true of IEEE doubles for
  \<open>N < 2^53\<close>).
\<close>

definition round_ok :: "pyrt \<Rightarrow> nat \<Rightarrow> bool" where
  "round_ok rt N \<longleftrightarrow>
     (\<forall>x y. x \<le> y \<longrightarrow> rt_round rt x \<le> rt_round rt y)
     \<and> (\<forall>n \<le> N. rt_round rt (of_nat n) = of_nat n)"

text \<open>A progress sequence as the adapter contract wants it.\<close>

definition progress_ok :: "int list \<Rightarrow> bool" where
  "progress_ok ps \<longleftrightarrow> sorted ps \<and> (\<forall>p \<in> set ps. 0 \<le> p \<and> p \<le> 100)"


text \<open>
  Postback paging, in the claim's words: starting from page \<open>cur\<close>, the pages \<open>chain\<close> are
  the answers to the postbacks \<open>Page$k\<close> for the page numbers \<open>ks\<close>, each posted from the
  page before it.
\<close>

fun linked :: "http_env \<Rightarrow> ustr \<Rightarrow> soup \<Rightarrow> nat list \<Rightarrow> soup list \<Rightarrow> bool" where
  "linked env target cur [] chain = (chain = [])"
| "linked env target cur (k # ks) [] = False"
| "linked env target cur (k # ks) (s # ss) =
     (post_page env cur target k = Inr s \<and> linked env target s ks ss)"

text \<open>The last page number asked for: the expected page count, cut at \<open>max_pages\<close>.\<close>

definition last_page :: "nat \<Rightarrow> int option \<Rightarrow> nat" where
  "last_page total_pages max_pages =
     (case max_pages of None \<Rightarrow> total_pages | Some m \<Rightarrow> min total_pages (nat m))"

text \<open>
  Paging by simple numbered links: the pages \<open>chain\<close> are the answers to the GETs of the
  links, the first of which is asked as page \<open>idx\<close>; and the links asked for under
  \<open>max_pages\<close>, the first link being page 2.
\<close>

fun followed :: "http_env \<Rightarrow> nat \<Rightarrow> ustr list \<Rightarrow> soup list \<Rightarrow> bool" where
  "followed env idx [] chain = (chain = [])"
| "followed env idx (url # urls) [] = False"
| "followed env idx (url # urls) (s # ss) =
     (get_page env idx url = Inr s \<and> followed env (Suc idx) urls ss)"

definition links_asked :: "int option \<Rightarrow> ustr list \<Rightarrow> ustr list" where
  "links_asked max_pages links =
     (case max_pages of None \<Rightarrow> links | Some m \<Rightarrow> take (nat (m - 1)) links)"

section \<open>Concrete sites\<close>

text \<open>
  A COMPR.AR listing of two pages, 12 and 3 rows, announced as 15 results and paged by
  postback; every row links to its detail page, and the fetch of the detail of row 7 fails.
\<close>

definition fila_ejemplo :: list_row where
  "fila_ejemplo =
     \<lparr> numero_proceso_list = Some (py ''38/19-1191-LPR25''),
       nombre_proceso_list = Some (py ''Servicio de limpieza''),
       tipo_proceso_list = Some (py ''Licitacion Privada''),
       fecha_apertura_list = Some (py ''12/03/2025 10:00''),
       estado_list = Some (py ''Publicado''),
       unidad_ejecutora_list = Some (py ''38/19''),
       saf_list = Some (py ''380''),
       detalle_url = Some (py ''/PLIEGO/VistaPreviaPliegoCiudadano.aspx?qs=1'') \<rparr>"

definition detalle_ejemplo :: detail where
  "detalle_ejemplo =
     \<lparr> d_numero_proceso = Some (py ''38/19-1191-LPR25''),
       d_expediente = Some (py ''EX-2025-1''),
       d_nombre_proceso = Some (py ''Servicio de limpieza de oficinas''),
       d_tipo_proceso = None,
       d_fecha_apertura = Some (py ''12/03/2025 10:00 Hrs.''),
       d_estado = None,
       d_unidad_ejecutora = None,
       d_saf = None,
       d_detalle_productos = Some (py ''1 - Notebooks''),
       d_pliego_nombre = Some (py ''PLIEG-2025-1-APN''),
       d_pliego_url = None,
       d_url = Some (py ''https://comprar.gob.ar/PLIEGO/VistaPreviaPliegoCiudadano.aspx?qs=1'') \<rparr>"

definition pagina_uno :: soup where
  "pagina_uno =
     \<lparr> total_results = Some 15,
       list_rows = [fila_ejemplo, fila_ejemplo, fila_ejemplo, fila_ejemplo, fila_ejemplo,
                    fila_ejemplo, fila_ejemplo, fila_ejemplo, fila_ejemplo, fila_ejemplo,
                    fila_ejemplo, fila_ejemplo],
       simple_pager_links = [],
       pager_target = Some (py ''ctl00$CPH1$GridListaPliegos''),
       form_state = [] \<rparr>"

definition pagina_dos :: soup where
  "pagina_dos =
     \<lparr> total_results = Some 15,
       list_rows = [fila_ejemplo, fila_ejemplo, fila_ejemplo],
       simple_pager_links = [],
       pager_target = Some (py ''ctl00$CPH1$GridListaPliegos''),
       form_state = [] \<rparr>"

definition red_ejemplo :: http_env where
  "red_ejemplo =
     \<lparr> get_listing = Inr pagina_uno,
       get_page = (\<lambda>idx url. Inl HTTPError),
       post_page = (\<lambda>cur target page. Inr pagina_dos),
       scrape_convocatoria_detail =
         (\<lambda>idx href. if idx = 7 then Inl HTTPError else Inr detalle_ejemplo),
       fetch_detalle_proceso_via_postback = (\<lambda>idx numero. Inr None) \<rparr>"

text \<open>
  A listing whose first page announces 3 results, shows one row, has no postback pager and
  one numbered link.
\<close>

definition pagina_con_links :: soup where
  "pagina_con_links =
     \<lparr> total_results = Some 3,
       list_rows = [fila_ejemplo],
       simple_pager_links = [py ''https://comprar.gob.ar/Compras.aspx?page=2''],
       pager_target = None,
       form_state = [] \<rparr>"

definition red_con_links :: http_env where
  "red_con_links =
     \<lparr> get_listing = Inr pagina_con_links,
       get_page = (\<lambda>idx url. Inr pagina_dos),
       post_page = (\<lambda>cur target page. Inl HTTPError),
       scrape_convocatoria_detail = (\<lambda>idx href. Inr detalle_ejemplo),
       fetch_detalle_proceso_via_postback = (\<lambda>idx numero. Inr None) \<rparr>"

text \<open>A listing page without rows.\<close>

definition pagina_vacia :: soup where
  "pagina_vacia =
     \<lparr> total_results = None, list_rows = [], simple_pager_links = [], pager_target = None,
       form_state = [] \<rparr>"

definition red_vacia :: http_env where
  "red_vacia =
     \<lparr> get_listing = Inr pagina_vacia,
       get_page = (\<lambda>idx url. Inl HTTPError),
       post_page = (\<lambda>cur target page. Inl HTTPError),
       scrape_convocatoria_detail = (\<lambda>idx href. Inl HTTPError),
       fetch_detalle_proceso_via_postback = (\<lambda>idx numero. Inr None) \<rparr>"

text \<open>
  The browser on a listing of two pages of three rows; the visit of the second row of a page
  raises.  The detail pages give no process number, so a record carries its row's number.
\<close>

definition fila_robot :: "ustr \<Rightarrow> fila" where
  "fila_robot numero =
     \<lparr> f_numero_proceso = numero,
       f_objeto = Some (py ''Servicio de limpieza''),
       f_tipo = Some (py ''Licitacion Privada''),
       f_fecha_apertura = Some (py ''12/03/2025 10:00''),
       f_estado = Some (py ''Publicado''),
       f_unidad_ejecutora = Some (py ''38/19''),
       f_saf = Some (py ''380'') \<rparr>"

definition detalle_sin_numero :: detail where
  "detalle_sin_numero = detalle_ejemplo\<lparr>d_numero_proceso := None\<rparr>"

definition pagina_robot :: pagina where
  "pagina_robot =
     [(fila_robot (py ''A-1''), Inr (Some detalle_sin_numero)),
      (fila_robot (py ''A-2''), Inl WebDriverError),
      (fila_robot (py ''A-3''), Inr (Some detalle_sin_numero))]"

definition robot_ejemplo :: robot_env where
  "robot_ejemplo = Inr [pagina_robot, pagina_robot]"

definition robot_vacio :: robot_env where
  "robot_vacio = Inr [[]]"

text \<open>
  The gazette over 1 and 2 January 2025 (ordinals 739252 and 739253).  In
  \<open>boletin_ejemplo\<close> the first day lists two notices and the second none; in
  \<open>boletin_fallido\<close> the first day lists none and the only notice of the second cannot be
  fetched.  Both write into an existing folder.
\<close>

definition aviso_ejemplo :: aviso where
  "aviso_ejemplo =
     \<lparr> a_titulo_listado = py ''MINISTERIO DE SALUD'',
       a_url = py ''https://www.boletinoficial.gob.ar/detalleAviso/tercera/1/20250101'',
       a_fecha_edicion = py ''2025-01-01'' \<rparr>"

definition parsed_ejemplo :: parsed_aviso where
  "parsed_ejemplo =
     \<lparr> p_organismo = Some (py ''MINISTERIO DE SALUD''),
       p_proceso = Some (py ''Licitacion Publica 1/2025''),
       p_fecha_publicacion = Some (py ''01/01/2025''),
       p_resumen_proyecto = Some (py ''Objeto: insumos''),
       p_objeto_resumen = Some (py ''insumos''),
       p_url = Some (py ''https://www.boletinoficial.gob.ar/detalleAviso/tercera/1/20250101'') \<rparr>"

definition boletin_ejemplo :: boletin_env where
  "boletin_ejemplo =
     \<lparr> get_listado_avisos = (\<lambda>fecha. if fecha = 739252 then [aviso_ejemplo, aviso_ejemplo] else []),
       parse_aviso = (\<lambda>fecha idx aviso. Inr parsed_ejemplo),
       to_excel = (\<lambda>dir filename. None) \<rparr>"


definition boletin_fallido :: boletin_env where
  "boletin_fallido =
     \<lparr> get_listado_avisos = (\<lambda>fecha. if fecha = 739253 then [aviso_ejemplo] else []),
       parse_aviso = (\<lambda>fecha idx aviso. Inl HTTPError),
       to_excel = (\<lambda>dir filename. None) \<rparr>"

text \<open>A cancel predicate that answers true from its third call on.\<close>

definition cancela_al_tercero :: canceller where
  "cancela_al_tercero = Some (\<lambda>n. 2 \<le> n)"

text \<open>
  The records expected of these sites, written out: of a listing row merged with its detail
  page (the product lines make it an IT procurement), of a listing row alone, of a row of
  the browser's page with its detail, and of a notice of the gazette.
\<close>

definition registro_fusionado :: proceso where
  "registro_fusionado =
     \<lparr> numero_proceso = Some (py ''38/19-1191-LPR25''),
       expediente = Some (py ''EX-2025-1''),
       nombre_proceso = Some (py ''Servicio de limpieza de oficinas''),
       tipo_proceso = Some (py ''Licitacion Privada''),
       fecha_apertura = Some (py ''12/03/2025 10:00 Hrs.''),
       estado = Some (py ''Publicado''),
       unidad_ejecutora = Some (py ''38/19''),
       saf = Some (py ''380''),
       detalle_productos = Some (py ''1 - Notebooks''),
       pliego_nombre = Some (py ''PLIEG-2025-1-APN''),
       pliego_url = None,
       url_detalle =
         Some (py ''https://comprar.gob.ar/PLIEGO/VistaPreviaPliegoCiudadano.aspx?qs=1''),
       marca_es_tic = True \<rparr>"

definition registro_listado :: proceso where
  "registro_listado =
     \<lparr> numero_proceso = Some (py ''38/19-1191-LPR25''),
       expediente = None,
       nombre_proceso = Some (py ''Servicio de limpieza''),
       tipo_proceso = Some (py ''Licitacion Privada''),
       fecha_apertura = Some (py ''12/03/2025 10:00''),
       estado = Some (py ''Publicado''),
       unidad_ejecutora = Some (py ''38/19''),
       saf = Some (py ''380''),
       detalle_productos = None,
       pliego_nombre = None,
       pliego_url = None,
       url_detalle = Some (py ''/PLIEGO/VistaPreviaPliegoCiudadano.aspx?qs=1''),
       marca_es_tic = False \<rparr>"

definition registro_robot :: "ustr \<Rightarrow> proceso" where
  "registro_robot numero = registro_fusionado\<lparr>numero_proceso := Some numero\<rparr>"

definition registro_boletin_ejemplo :: registro_boletin where
  "registro_boletin_ejemplo =
     \<lparr> b_organismo = Some (py ''MINISTERIO DE SALUD''),
       b_proceso = Some (py ''Licitacion Publica 1/2025''),
       b_fecha_publicacion = Some (py ''01/01/2025''),
       b_resumen_proyecto = Some (py ''Objeto: insumos''),
       b_objeto_resumen = Some (py ''insumos''),
       b_url = Some (py ''https://www.boletinoficial.gob.ar/detalleAviso/tercera/1/20250101''),
       b_titulo_listado = Some (py ''MINISTERIO DE SALUD''),
       b_fecha_edicion = Some (py ''2025-01-01'') \<rparr>"

text \<open>Their rows in the sheets of the three adapters, cell by cell.\<close>

definition hoja_fusionada :: "cell list" where
  "hoja_fusionada =
     [CStr (Some (py ''38/19-1191-LPR25'')), CStr (Some (py ''EX-2025-1'')),
      CStr (Some (py ''Servicio de limpieza de oficinas'')),
      CStr (Some (py ''Licitacion Privada'')), CStr (Some (py ''12/03/2025 10:00 Hrs.'')),
      CStr (Some (py ''Publicado'')), CStr (Some (py ''38/19'')), CStr (Some (py ''380'')),
      CStr (Some (py ''1 - Notebooks'')), CStr (Some (py ''PLIEG-2025-1-APN'')), CStr None,
      CStr (Some (py ''https://comprar.gob.ar/PLIEGO/VistaPreviaPliegoCiudadano.aspx?qs=1'')),
      CBool True]"

definition hoja_listado :: "cell list" where
  "hoja_listado =
     [CStr (Some (py ''38/19-1191-LPR25'')), CStr None,
      CStr (Some (py ''Servicio de limpieza'')),
      CStr (Some (py ''Licitacion Privada'')), CStr (Some (py ''12/03/2025 10:00'')),
      CStr (Some (py ''Publicado'')), CStr (Some (py ''38/19'')), CStr (Some (py ''380'')),
      CStr None, CStr None, CStr None,
      CStr (Some (py ''/PLIEGO/VistaPreviaPliegoCiudadano.aspx?qs=1'')),
      CBool False]"

definition hoja_robot :: "ustr \<Rightarrow> cell list" where
  "hoja_robot numero =
     [CStr (Some numero), CStr (Some (py ''EX-2025-1'')),
      CStr (Some (py ''Servicio de limpieza de oficinas'')),
      CStr (Some (py ''Licitacion Privada'')), CStr (Some (py ''12/03/2025 10:00 Hrs.'')),
      CStr (Some (py ''Publicado'')), CStr (Some (py ''38/19'')), CStr (Some (py ''380'')),
      CStr (Some (py ''1 - Notebooks'')), CStr (Some (py ''PLIEG-2025-1-APN'')),
      CStr (Some (py ''https://comprar.gob.ar/PLIEGO/VistaPreviaPliegoCiudadano.aspx?qs=1'')),
      CBool True]"

definition hoja_boletin_ejemplo :: "cell list" where
  "hoja_boletin_ejemplo =
     [CStr (Some (py ''MINISTERIO DE SALUD'')), CStr (Some (py ''Licitacion Publica 1/2025'')),
      CStr (Some (py ''01/01/2025'')), CStr (Some (py ''Objeto: insumos'')),
      CStr (Some (py ''insumos'')),
      CStr (Some (py ''https://www.boletinoficial.gob.ar/detalleAviso/tercera/1/20250101'')),
      CStr (Some (py ''MINISTERIO DE SALUD'')), CStr (Some (py ''2025-01-01''))]"

text \<open>
  Runs on these sites over 1 and 2 January 2025, into the folder \<open>salida\<close>, with the Latin-1
  runtime; the callback flag and the cancel predicate are left open.
\<close>

definition corrida_http :: "bool \<Rightarrow> canceller \<Rightarrow> proceso run" where
  "corrida_http cb canc =
     scrape_comprar_tics latin1_rt red_ejemplo 739252 739253 (py ''salida'') cb canc"

definition corrida_http_vacia :: "bool \<Rightarrow> canceller \<Rightarrow> proceso run" where
  "corrida_http_vacia cb canc =
     scrape_comprar_tics latin1_rt red_vacia 739252 739253 (py ''salida'') cb canc"

definition corrida_robot :: "bool \<Rightarrow> canceller \<Rightarrow> proceso run" where
  "corrida_robot cb canc =
     scrape_comprar_tics_robot latin1_rt robot_ejemplo 739252 739253 (py ''salida'') cb canc"

definition corrida_robot_vacia :: "bool \<Rightarrow> canceller \<Rightarrow> proceso run" where
  "corrida_robot_vacia cb canc =
     scrape_comprar_tics_robot latin1_rt robot_vacio 739252 739253 (py ''salida'') cb canc"

definition corrida_boletin :: "bool \<Rightarrow> canceller \<Rightarrow> registro_boletin run" where
  "corrida_boletin cb canc =
     scrape_boletin_tercera latin1_rt boletin_ejemplo 739252 739253 (py ''salida'') cb canc"

definition corrida_boletin_fallida :: "bool \<Rightarrow> canceller \<Rightarrow> registro_boletin run" where
  "corrida_boletin_fallida cb canc =
     scrape_boletin_tercera latin1_rt boletin_fallido 739252 739253 (py ''salida'') cb canc"


section \<open>Properties of the sanitizer\<close>

lemma re_sub_ws_no_space: "c \<in> set (re_sub_ws s) \<Longrightarrow> \<not> py_isspace c"
proof (induction s arbitrary: c rule: re_sub_ws.induct)
  case 1
  then show ?case by simp
next
  case (2 d ds)
  have u: "\<not> py_isspace 95" by (simp add: py_isspace_def)
  show ?case
  proof (cases "py_isspace d")
    case True
    with "2.prems" have "c = 95 \<or> c \<in> set (re_sub_ws (dropWhile py_isspace ds))" by simp
    then show ?thesis using u "2.IH"(1)[OF True] by auto
  next
    case False
    with "2.prems" have "c = d \<or> c \<in> set (re_sub_ws ds)" by simp
    then show ?thesis using False "2.IH"(2)[OF False] by auto
  qed
qed

lemma re_sub_ws_subset: "set (re_sub_ws s) \<subseteq> insert 95 (set s)"
proof (induction s rule: re_sub_ws.induct)
  case 1
  then show ?case by simp
next
  case (2 d ds)
  have "set (dropWhile py_isspace ds) \<subseteq> set ds"
    by (meson set_dropWhileD subsetI)
  with 2 show ?case by (cases "py_isspace d") auto
qed

lemma re_sub_ws_id: "\<forall>c \<in> set s. \<not> py_isspace c \<Longrightarrow> re_sub_ws s = s"
  by (induction s) auto

lemma replace_char_id: "a \<notin> set s \<Longrightarrow> replace_char a b s = s"
  by (induction s) (auto simp: replace_char_def)

lemma replace_char_absent: "a \<noteq> b \<Longrightarrow> a \<notin> set (replace_char a b s)"
  by (auto simp: replace_char_def)

lemma replace_char_keeps_absent: "x \<notin> set s \<Longrightarrow> x \<noteq> b \<Longrightarrow> x \<notin> set (replace_char a b s)"
  by (auto simp: replace_char_def)

lemma py_strip_id: "\<forall>c \<in> set s. \<not> py_isspace c \<Longrightarrow> py_strip s = s"
proof -
  assume a: "\<forall>c \<in> set s. \<not> py_isspace c"
  then have "dropWhile py_isspace s = s" by (cases s) auto
  moreover from a have "dropWhile py_isspace (rev s) = rev s" by (cases "rev s") auto
  ultimately show ?thesis by (simp add: py_strip_def)
qed

lemma sanitizar_no_slash: "47 \<notin> set (sanitizar_doc_id s)"
proof -
  have "47 \<notin> set (replace_char 92 45 (replace_char 47 45 (py_strip s)))"
    by (rule replace_char_keeps_absent) (simp_all add: replace_char_absent)
  then show ?thesis
    using re_sub_ws_subset by (fastforce simp: sanitizar_doc_id_def Let_def)
qed

lemma sanitizar_no_backslash: "92 \<notin> set (sanitizar_doc_id s)"
proof -
  have "92 \<notin> set (replace_char 92 45 (replace_char 47 45 (py_strip s)))"
    by (simp add: replace_char_absent)
  then show ?thesis
    using re_sub_ws_subset by (fastforce simp: sanitizar_doc_id_def Let_def)
qed

lemma sanitizar_no_space: "c \<in> set (sanitizar_doc_id s) \<Longrightarrow> \<not> py_isspace c"
  by (simp add: sanitizar_doc_id_def Let_def re_sub_ws_no_space)

lemma sanitizar_fixpoint:
  assumes "47 \<notin> set t" "92 \<notin> set t" "\<forall>c \<in> set t. \<not> py_isspace c"
  shows "sanitizar_doc_id t = t"
  using assms by (simp add: sanitizar_doc_id_def Let_def py_strip_id replace_char_id re_sub_ws_id)

text \<open>
  C4.  For every input string the sanitized identifier contains no \<open>/\<close> (47), no \<open>\\<close> (92)
  and no whitespace code point; sanitizing is idempotent; and
  \<open>sanitizar_doc_id("14/1-0026 LPR25") = "14-1-0026_LPR25"\<close>.
\<close>

theorem sanitizar_doc_id_clean_idempotent:
  "47 \<notin> set (sanitizar_doc_id s)
   \<and> 92 \<notin> set (sanitizar_doc_id s)
   \<and> (\<forall>c \<in> set (sanitizar_doc_id s). \<not> py_isspace c)
   \<and> sanitizar_doc_id (sanitizar_doc_id s) = sanitizar_doc_id s
   \<and> sanitizar_doc_id (py ''14/1-0026 LPR25'') = py ''14-1-0026_LPR25''"
proof -
  have ex: "sanitizar_doc_id (py ''14/1-0026 LPR25'') = py ''14-1-0026_LPR25''"
    by (simp add: sanitizar_doc_id_def Let_def py_def py_strip_def replace_char_def py_isspace_def)
  have sp: "\<forall>c \<in> set (sanitizar_doc_id s). \<not> py_isspace c"
    using sanitizar_no_space by blast
  have "sanitizar_doc_id (sanitizar_doc_id s) = sanitizar_doc_id s"
    by (rule sanitizar_fixpoint[OF sanitizar_no_slash sanitizar_no_backslash sp])
  with ex sp show ?thesis
    using sanitizar_no_slash sanitizar_no_backslash by blast
qed

theorem sanitizar_doc_id_clean_idempotent_witness:
  "sanitizar_doc_id (py '' a/b c '') = py ''a-b_c''
   \<and> 47 \<notin> set (py ''a-b_c'') \<and> 92 \<notin> set (py ''a-b_c'')
   \<and> list_all (\<lambda>c. \<not> py_isspace c) (py ''a-b_c'')
   \<and> sanitizar_doc_id (py ''a-b_c'') = py ''a-b_c''"
proof -
  have e: "sanitizar_doc_id (py '' a/b c '') = py ''a-b_c''"
    by (simp add: sanitizar_doc_id_def Let_def py_def py_strip_def replace_char_def py_isspace_def)
  show ?thesis
    using sanitizar_doc_id_clean_idempotent [of "py '' a/b c ''"] unfolding e
    by (simp add: list_all_iff)
qed

section \<open>Properties of the year derivation\<close>

lemma four_digits_at_Cons_Suc:
  "four_digits_at dec (c # cs) (Suc i) = four_digits_at dec cs i"
  by (simp add: four_digits_at_def ac_simps)

lemma all_below_4: "(\<forall>n<4. P n) \<longleftrightarrow> P 0 \<and> P (Suc 0) \<and> P 2 \<and> P (3::nat)"
proof
  assume "\<forall>n<4. P n"
  then show "P 0 \<and> P (Suc 0) \<and> P 2 \<and> P 3" by simp
next
  assume a: "P 0 \<and> P (Suc 0) \<and> P 2 \<and> P 3"
  show "\<forall>n<4. P n"
  proof (intro allI impI)
    fix n :: nat assume "n < 4"
    then consider "n = 0" | "n = Suc 0" | "n = 2" | "n = 3" by linarith
    then show "P n" using a by cases simp_all
  qed
qed

lemma four_digits_at_0:
  "four_digits_at dec s 0 \<longleftrightarrow> 4 \<le> length s \<and> list_all (\<lambda>x. dec x \<noteq> None) (take 4 s)"
proof (cases "4 \<le> length s")
  case False
  then show ?thesis by (simp add: four_digits_at_def)
next
  case True
  then have m: "min (length s) 4 = 4" by simp
  have "list_all (\<lambda>x. dec x \<noteq> None) (take 4 s) \<longleftrightarrow> (\<forall>n<4. dec (s ! n) \<noteq> None)"
    by (simp add: list_all_length m)
  also have "\<dots> \<longleftrightarrow> dec (s ! 0) \<noteq> None \<and> dec (s ! Suc 0) \<noteq> None
                      \<and> dec (s ! 2) \<noteq> None \<and> dec (s ! 3) \<noteq> None"
    by (rule all_below_4)
  finally show ?thesis using True by (simp add: four_digits_at_def numeral_2_eq_2)
qed

lemma re_search_d4_None:
  "re_search_d4 dec s = None \<longleftrightarrow> (\<forall>i. \<not> four_digits_at dec s i)"
proof (induction s)
  case Nil
  then show ?case by (simp add: four_digits_at_def)
next
  case (Cons c cs)
  show ?case
  proof (cases "four_digits_at dec (c # cs) 0")
    case True
    then have "re_search_d4 dec (c # cs) \<noteq> None"
      using four_digits_at_0[of dec "c # cs"] by simp
    with True show ?thesis by blast
  next
    case False
    then have "re_search_d4 dec (c # cs) = re_search_d4 dec cs"
      using four_digits_at_0[of dec "c # cs"] by auto
    moreover have "(\<forall>i. \<not> four_digits_at dec (c # cs) i) \<longleftrightarrow> (\<forall>i. \<not> four_digits_at dec cs i)"
    proof
      assume a: "\<forall>i. \<not> four_digits_at dec (c # cs) i"
      show "\<forall>i. \<not> four_digits_at dec cs i"
      proof
        fix i
        from a have "\<not> four_digits_at dec (c # cs) (Suc i)" by blast
        then show "\<not> four_digits_at dec cs i" by (simp add: four_digits_at_Cons_Suc)
      qed
    next
      assume a: "\<forall>i. \<not> four_digits_at dec cs i"
      show "\<forall>i. \<not> four_digits_at dec (c # cs) i"
      proof
        fix i
        show "\<not> four_digits_at dec (c # cs) i"
          using False a by (cases i) (simp_all add: four_digits_at_Cons_Suc)
      qed
    qed
    ultimately show ?thesis using Cons.IH by simp
  qed
qed

lemma re_search_d4_first:
  "four_digits_at dec s i \<Longrightarrow> (\<forall>j<i. \<not> four_digits_at dec s j)
   \<Longrightarrow> re_search_d4 dec s = Some (take 4 (drop i s))"
proof (induction s arbitrary: i)
  case Nil
  then show ?case by (simp add: four_digits_at_def)
next
  case (Cons c cs)
  show ?case
  proof (cases i)
    case 0
    with Cons.prems(1) show ?thesis
      using four_digits_at_0[of dec "c # cs"] by simp
  next
    case (Suc k)
    with Cons.prems(2) have n0: "\<not> four_digits_at dec (c # cs) 0" by blast
    from Suc Cons.prems(1) have k: "four_digits_at dec cs k"
      by (simp add: four_digits_at_Cons_Suc)
    have "\<forall>j<k. \<not> four_digits_at dec cs j"
    proof (intro allI impI)
      fix j assume "j < k"
      then have "Suc j < i" using Suc by simp
      with Cons.prems(2) have "\<not> four_digits_at dec (c # cs) (Suc j)" by blast
      then show "\<not> four_digits_at dec cs j" by (simp add: four_digits_at_Cons_Suc)
    qed
    with k have "re_search_d4 dec cs = Some (take 4 (drop k cs))" by (rule Cons.IH)
    moreover have "re_search_d4 dec (c # cs) = re_search_d4 dec cs"
      using n0 four_digits_at_0[of dec "c # cs"] by auto
    ultimately show ?thesis using Suc by simp
  qed
qed

lemma take4_drop:
  assumes "i + 4 \<le> length s"
  shows "take 4 (drop i s) = [s ! i, s ! (i + 1), s ! (i + 2), s ! (i + 3)]"
proof -
  have l: "length (take 4 (drop i s)) = 4" using assms by simp
  have n: "\<And>k. k < 4 \<Longrightarrow> take 4 (drop i s) ! k = s ! (i + k)" using assms by simp
  show ?thesis
  proof (rule nth_equalityI)
    show "length (take 4 (drop i s)) = length [s ! i, s ! (i + 1), s ! (i + 2), s ! (i + 3)]"
      using l by simp
  next
    fix k assume "k < length (take 4 (drop i s))"
    then have k: "k < 4" using l by simp
    then consider "k = 0" | "k = 1" | "k = 2" | "k = 3" by linarith
    then show "take 4 (drop i s) ! k = [s ! i, s ! (i + 1), s ! (i + 2), s ! (i + 3)] ! k"
      using n[OF k] by cases simp_all
  qed
qed

lemma py_int_four:
  assumes "dec a \<noteq> None" "dec b \<noteq> None" "dec c \<noteq> None" "dec d \<noteq> None"
  shows "py_int dec [a, b, c, d]
         = Some (1000 * digit_of dec a + 100 * digit_of dec b + 10 * digit_of dec c + digit_of dec d)"
  using assms by (auto simp: py_int_def digit_of_def)

lemma obtener_anio_first_run:
  assumes "four_digits_at (rt_decimal rt) s i" "\<forall>j<i. \<not> four_digits_at (rt_decimal rt) s j"
  shows "obtener_anio_desde_fecha rt (PyStr s) = Some (four_digit_value (rt_decimal rt) s i)"
proof -
  from assms(1) have len: "i + 4 \<le> length s" by (simp add: four_digits_at_def)
  have "re_search_d4 (rt_decimal rt) s = Some (take 4 (drop i s))"
    using assms by (rule re_search_d4_first)
  then have g: "re_search_d4 (rt_decimal rt) s = Some [s ! i, s ! (i + 1), s ! (i + 2), s ! (i + 3)]"
    using take4_drop[OF len] by simp
  have "py_int (rt_decimal rt) [s ! i, s ! (i + 1), s ! (i + 2), s ! (i + 3)]
        = Some (four_digit_value (rt_decimal rt) s i)"
    unfolding four_digit_value_def using assms(1)
    by (intro py_int_four) (simp_all add: four_digits_at_def)
  with g show ?thesis by (simp add: obtener_anio_desde_fecha_def)
qed

text \<open>
  C7.  \<open>obtener_anio_desde_fecha\<close> returns \<open>None\<close>, and raises nothing (the function is
  total and every branch returns), when its argument is not a string or is a string in which
  no four consecutive decimal digits occur; otherwise it returns the integer denoted by the
  leftmost four consecutive decimal digits.
\<close>

theorem obtener_anio_desde_fecha_spec:
  "((\<forall>s. v \<noteq> PyStr s) \<longrightarrow> obtener_anio_desde_fecha rt v = None)
   \<and> ((\<forall>i. \<not> four_digits_at (rt_decimal rt) s i)
        \<longrightarrow> obtener_anio_desde_fecha rt (PyStr s) = None)
   \<and> (four_digits_at (rt_decimal rt) s i \<and> (\<forall>j<i. \<not> four_digits_at (rt_decimal rt) s j)
        \<longrightarrow> obtener_anio_desde_fecha rt (PyStr s) = Some (four_digit_value (rt_decimal rt) s i))"
proof (intro conjI impI)
  assume "\<forall>s. v \<noteq> PyStr s"
  then show "obtener_anio_desde_fecha rt v = None"
    by (cases v) (simp_all add: obtener_anio_desde_fecha_def)
next
  assume "\<forall>i. \<not> four_digits_at (rt_decimal rt) s i"
  then have "re_search_d4 (rt_decimal rt) s = None" by (simp add: re_search_d4_None)
  then show "obtener_anio_desde_fecha rt (PyStr s) = None"
    by (simp add: obtener_anio_desde_fecha_def)
next
  assume "four_digits_at (rt_decimal rt) s i \<and> (\<forall>j<i. \<not> four_digits_at (rt_decimal rt) s j)"
  then show "obtener_anio_desde_fecha rt (PyStr s) = Some (four_digit_value (rt_decimal rt) s i)"
    using obtener_anio_first_run by blast
qed

lemma latin1_no_run_ejemplo: "\<not> four_digits_at latin1_decimal (py ''12/ene'') i"
proof -
  have "i = 0 \<or> i = 1 \<or> i = 2 \<or> 3 \<le> i" by linarith
  then show ?thesis
    by (auto simp: four_digits_at_def py_def latin1_decimal_def)
qed

theorem obtener_anio_desde_fecha_spec_witness:
  "obtener_anio_desde_fecha latin1_rt (PyInt 2025) = None
   \<and> obtener_anio_desde_fecha latin1_rt (PyStr (py ''12/ene'')) = None
   \<and> obtener_anio_desde_fecha latin1_rt (PyStr (py ''12/03/2025 10:00'')) = Some 2025"
proof -
  have dec: "rt_decimal latin1_rt = latin1_decimal" by (simp add: latin1_rt_def)
  have a: "\<forall>s. PyInt 2025 \<noteq> PyStr s" by simp
  have b: "\<forall>i. \<not> four_digits_at (rt_decimal latin1_rt) (py ''12/ene'') i"
    unfolding dec using latin1_no_run_ejemplo by blast
  have c1: "four_digits_at (rt_decimal latin1_rt) (py ''12/03/2025 10:00'') 6"
    unfolding dec by (simp add: four_digits_at_def py_def latin1_decimal_def)
  have c2: "\<forall>j<6. \<not> four_digits_at (rt_decimal latin1_rt) (py ''12/03/2025 10:00'') j"
  proof (intro allI impI)
    fix j :: nat assume "j < 6"
    then consider "j = 0" | "j = 1" | "j = 2" | "j = 3" | "j = 4" | "j = 5" by linarith
    then show "\<not> four_digits_at (rt_decimal latin1_rt) (py ''12/03/2025 10:00'') j"
      unfolding dec by cases (simp_all add: four_digits_at_def py_def latin1_decimal_def)
  qed
  have v: "four_digit_value (rt_decimal latin1_rt) (py ''12/03/2025 10:00'') 6 = 2025"
    unfolding dec by (simp add: four_digit_value_def digit_of_def py_def latin1_decimal_def)
  from obtener_anio_desde_fecha_spec [of "PyInt 2025" latin1_rt "py ''12/ene''"] a b
  have r1: "obtener_anio_desde_fecha latin1_rt (PyInt 2025) = None"
    and r2: "obtener_anio_desde_fecha latin1_rt (PyStr (py ''12/ene'')) = None"
    by blast+
  from obtener_anio_desde_fecha_spec [of "PyInt 2025" latin1_rt "py ''12/03/2025 10:00''" 6] c1 c2
  have "obtener_anio_desde_fecha latin1_rt (PyStr (py ''12/03/2025 10:00''))
        = Some (four_digit_value (rt_decimal latin1_rt) (py ''12/03/2025 10:00'') 6)"
    by blast
  with v r1 r2 show ?thesis by simp
qed

section \<open>Properties of the classification\<close>




lemmas latin1_eval =
  latin1_rt_def latin1_nfd_def latin1_decomp_def latin1_base_def latin1_mark_def
  latin1_combining_def latin1_lower_cp_def normalizar_def strip_accents_def py_def





section \<open>Event lists\<close>

declare dias_loop.simps [simp del]

lemma progress_of_append: "progress_of (a @ b) = progress_of a @ progress_of b"
  by (induction a rule: progress_of.induct) simp_all

lemma appended_append: "appended (a @ b) = appended a @ appended b"
  by (induction a rule: appended.induct) simp_all

lemma written_append: "written (a @ b) = written a @ written b"
  by (induction a rule: written.induct) simp_all

lemma cancel_seen_append: "cancel_seen (a @ b) \<longleftrightarrow> cancel_seen a \<or> cancel_seen b"
  by (induction a rule: cancel_seen.induct) simp_all

lemma after_cancel_append:
  "after_cancel (a @ b) = (if cancel_seen a then after_cancel a @ b else after_cancel b)"
  by (induction a rule: cancel_seen.induct) simp_all

lemma before_cancel_append:
  "before_cancel (a @ b) = (if cancel_seen a then before_cancel a else a @ before_cancel b)"
  by (induction a rule: cancel_seen.induct) simp_all


lemma not_seen_before: "\<not> cancel_seen es \<Longrightarrow> before_cancel es = es"
  by (induction es rule: cancel_seen.induct) simp_all

lemma poll_ev_simps [simp]:
  "progress_of (poll_ev canc p) = []"
  "appended (poll_ev canc p) = []"
  "written (poll_ev canc p) = []"
  "cancel_seen (poll_ev canc p) = is_cancelled_now canc p"
  "after_cancel (poll_ev canc p) = []"
  by (cases canc; cases "the canc p"; simp add: poll_ev_def is_cancelled_now_def)+

lemma before_cancel_poll_ev [simp]:
  "is_cancelled_now canc p \<Longrightarrow> before_cancel (poll_ev canc p) = []"
  by (cases canc) (simp_all add: poll_ev_def is_cancelled_now_def)

lemma report_simps [simp]:
  "progress_of (report cb n) = (if cb then [n] else [])"
  "appended (report cb n) = []"
  "written (report cb n) = []"
  "cancel_seen (report cb n) = False"
  "after_cancel (report cb n) = []"
  "before_cancel (report cb n) = report cb n"
  by (simp_all add: report_def)

lemmas event_append =
  progress_of_append appended_append written_append cancel_seen_append after_cancel_append
  before_cancel_append

section \<open>The row loops\<close>

lemma rows_loop_trace:
  "rows_loop rt env cb canc total_rows idx rows polls records = (recs, evs)
   \<Longrightarrow> recs = records @ appended evs \<and> written evs = []
       \<and> appended (after_cancel evs) = []"
proof (induction rows arbitrary: idx polls records recs evs)
  case Nil
  then show ?case by simp
next
  case (Cons row rows)
  show ?case
  proof (cases "is_cancelled_now canc polls")
    case True
    with Cons.prems show ?thesis by auto
  next
    case False
    let ?m = "merge_row rt row (detail_for env idx row)"
    obtain recs' evs' where r:
      "rows_loop rt env cb canc total_rows (Suc idx) rows (polled canc polls) (records @ [?m])
         = (recs', evs')"
      by (cases "rows_loop rt env cb canc total_rows (Suc idx) rows (polled canc polls)
                   (records @ [?m])") auto
    from Cons.IH[OF r] have ih: "recs' = (records @ [?m]) @ appended evs'"
      "written evs' = []" "appended (after_cancel evs') = []" by auto
    from Cons.prems False r have e: "recs = recs'"
      "evs = poll_ev canc polls @ [Append ?m] @ report cb (row_progress rt idx total_rows) @ evs'"
      by (auto simp: Let_def)
    show ?thesis using ih False unfolding e by (simp add: event_append)
  qed
qed

lemma filas_loop_trace:
  "filas_loop rt cb canc filas st = (st', evs)
   \<Longrightarrow> registros st' = registros st @ appended evs \<and> written evs = []
       \<and> appended (after_cancel evs) = []
       \<and> (returned st' \<longleftrightarrow> returned st \<or> cancel_seen evs)"
proof (induction filas arbitrary: st st' evs)
  case Nil
  then show ?case by simp
next
  case (Cons x filas)
  obtain fila outcome where x: "x = (fila, outcome)" by (cases x)
  show ?case
  proof (cases "is_cancelled_now canc (rb_polls st)")
    case True
    with Cons.prems x show ?thesis by auto
  next
    case False
    let ?st1 = "st\<lparr>rb_polls := polled canc (rb_polls st)\<rparr>"
    show ?thesis
    proof (cases "case outcome of Inl e \<Rightarrow> None | Inr detalle \<Rightarrow> detalle")
      case None
      obtain s' evs' where r: "filas_loop rt cb canc filas ?st1 = (s', evs')"
        by (cases "filas_loop rt cb canc filas ?st1") auto
      from Cons.IH[OF r] have ih: "registros s' = registros ?st1 @ appended evs'"
        "written evs' = []" "appended (after_cancel evs') = []"
        "returned s' \<longleftrightarrow> returned ?st1 \<or> cancel_seen evs'" by auto
      from Cons.prems x False None r have e: "st' = s'"
        "evs = poll_ev canc (rb_polls st) @ evs'"
        by (auto simp: Let_def)
      show ?thesis using ih False unfolding e by (simp add: event_append)
    next
      case (Some detalle)
      let ?r = "registro_de rt fila detalle"
      let ?st2 = "?st1\<lparr>registros := registros ?st1 @ [?r],
                        total_procesos := Suc (total_procesos ?st1)\<rparr>"
      obtain s' evs' where r: "filas_loop rt cb canc filas ?st2 = (s', evs')"
        by (cases "filas_loop rt cb canc filas ?st2") auto
      from Cons.IH[OF r] have ih: "registros s' = registros ?st2 @ appended evs'"
        "written evs' = []" "appended (after_cancel evs') = []"
        "returned s' \<longleftrightarrow> returned ?st2 \<or> cancel_seen evs'" by auto
      from Cons.prems x False Some r have e: "st' = s'"
        "evs = poll_ev canc (rb_polls st) @ [Append ?r]
                 @ report cb (min (int (total_procesos ?st2)) 99) @ evs'"
        by (auto simp: Let_def)
      show ?thesis using ih False unfolding e by (simp add: event_append)
    qed
  qed
qed

lemma paginas_loop_trace:
  "paginas_loop rt max_paginas cb canc pagina pages st = (st', evs) \<Longrightarrow> \<not> returned st
   \<Longrightarrow> registros st' = registros st @ appended evs \<and> written evs = []
       \<and> appended (after_cancel evs) = []"
proof (induction pages arbitrary: pagina st st' evs)
  case Nil
  then show ?case by simp
next
  case (Cons filas rest)
  show ?case
  proof (cases "filas = []")
    case True
    with Cons.prems show ?thesis by simp
  next
    case False
    obtain st1 evs1 where f: "filas_loop rt cb canc filas st = (st1, evs1)"
      by (cases "filas_loop rt cb canc filas st") auto
    from filas_loop_trace[OF f] Cons.prems(2)
    have t1: "registros st1 = registros st @ appended evs1" "written evs1 = []"
      "appended (after_cancel evs1) = []" "returned st1 \<longleftrightarrow> cancel_seen evs1" by auto
    show ?thesis
    proof (cases "returned st1 \<or> over_max max_paginas (Suc pagina) \<or> rest = []")
      case True
      with Cons.prems(1) False f have "st' = st1" "evs = evs1" by (auto split: if_splits)
      with t1 show ?thesis by simp
    next
      case stop: False
      obtain st2 evs2 where p:
        "paginas_loop rt max_paginas cb canc (Suc pagina) rest st1 = (st2, evs2)"
        by (cases "paginas_loop rt max_paginas cb canc (Suc pagina) rest st1") auto
      from stop have nr: "\<not> returned st1" by simp
      from Cons.IH[OF p nr] have ih: "registros st2 = registros st1 @ appended evs2"
        "written evs2 = []" "appended (after_cancel evs2) = []" by auto
      from Cons.prems(1) False f stop p have e: "st' = st2" "evs = evs1 @ evs2" by auto
      show ?thesis using ih t1 nr unfolding e by (simp add: event_append)
    qed
  qed
qed

lemma paginas_loop_first_page:
  "paginas_loop rt (Some 1) cb canc 1 (p # ps) st = paginas_loop rt (Some 1) cb canc 1 [p] st"
  by (simp add: over_max_def split: prod.splits)

text \<open>
  C10.  \<open>scrape_comprar_tics_robot\<close> calls \<open>ejecutar_robot\<close> with \<open>max_paginas = 1\<close>, so
  whatever pages follow the first one, the run is the run on the first page alone: same
  result, same records, same events.
\<close>

theorem robot_only_first_page:
  "scrape_comprar_tics_robot rt (Inr (p # ps)) start_date end_date output_dir cb canc
   = scrape_comprar_tics_robot rt (Inr [p]) start_date end_date output_dir cb canc"
proof -
  let ?st0 = "\<lparr> registros = [], total_procesos = 0, rb_polls = 0, returned = False \<rparr>"
  have "paginas_loop rt (Some 1) cb canc 1 (p # ps) ?st0
        = paginas_loop rt (Some 1) cb canc 1 [p] ?st0"
    by (rule paginas_loop_first_page)
  then have "ejecutar_robot rt (Inr (p # ps)) (Some 1) cb canc
             = ejecutar_robot rt (Inr [p]) (Some 1) cb canc"
    unfolding ejecutar_robot_def by (simp only: sum.case)
  then show ?thesis
    unfolding scrape_comprar_tics_robot_def by (simp only:)
qed

section \<open>The loops of the gazette adapter\<close>

lemma stays_cancelled_later:
  "stays_cancelled canc \<Longrightarrow> is_cancelled_now canc k \<Longrightarrow> k \<le> p \<Longrightarrow> is_cancelled_now canc p"
  by (cases canc) (auto simp: stays_cancelled_def is_cancelled_now_def)

lemma polled_ge: "polls \<le> polled canc polls"
  by (cases canc) (simp_all add: polled_def)

lemma polled_cancelled: "is_cancelled_now canc polls \<Longrightarrow> polls < polled canc polls"
  by (cases canc) (simp_all add: polled_def is_cancelled_now_def)

lemma avisos_loop_trace:
  "avisos_loop rt env cb canc total_days fecha day_index n_av idx avisos polls regs
     = (regs', polls', evs)
   \<Longrightarrow> regs' = regs @ appended evs \<and> written evs = [] \<and> polls \<le> polls'
       \<and> appended (after_cancel evs) = []
       \<and> (cancel_seen evs \<longrightarrow> (\<exists>k<polls'. is_cancelled_now canc k))"
proof (induction avisos arbitrary: idx polls regs regs' polls' evs)
  case Nil
  then show ?case by simp
next
  case (Cons aviso avisos)
  show ?case
  proof (cases "is_cancelled_now canc polls")
    case True
    with Cons.prems have e: "regs' = regs" "polls' = polled canc polls" "evs = poll_ev canc polls"
      by auto
    have "\<exists>k<polled canc polls. is_cancelled_now canc k"
      using True polled_cancelled[OF True] by blast
    then show ?thesis unfolding e using polled_ge[of polls canc] by simp
  next
    case False
    show ?thesis
    proof (cases "parse_aviso env fecha idx aviso")
      case (Inl exc)
      obtain r p es where rec:
        "avisos_loop rt env cb canc total_days fecha day_index n_av (Suc idx) avisos
           (polled canc polls) regs = (r, p, es)"
        using prod_cases3 by blast
      from Cons.IH[OF rec] have ih: "r = regs @ appended es" "written es = []"
        "polled canc polls \<le> p" "appended (after_cancel es) = []"
        "cancel_seen es \<longrightarrow> (\<exists>k<p. is_cancelled_now canc k)" by auto
      from Cons.prems False Inl rec have e: "regs' = r" "polls' = p"
        "evs = poll_ev canc polls @ es" by auto
      have "polls \<le> p" using ih(3) polled_ge[of polls canc] by linarith
      then show ?thesis using ih False unfolding e by (simp add: event_append)
    next
      case (Inr data)
      let ?d = "registro_aviso data aviso"
      obtain r p es where rec:
        "avisos_loop rt env cb canc total_days fecha day_index n_av (Suc idx) avisos
           (polled canc polls) (regs @ [?d]) = (r, p, es)"
        using prod_cases3 by blast
      from Cons.IH[OF rec] have ih: "r = (regs @ [?d]) @ appended es" "written es = []"
        "polled canc polls \<le> p" "appended (after_cancel es) = []"
        "cancel_seen es \<longrightarrow> (\<exists>k<p. is_cancelled_now canc k)" by auto
      from Cons.prems False Inr rec have e: "regs' = r" "polls' = p"
        "evs = poll_ev canc polls @ [Append ?d]
                 @ report cb (aviso_pct rt day_index idx n_av total_days) @ es" by auto
      have "polls \<le> p" using ih(3) polled_ge[of polls canc] by linarith
      then show ?thesis using ih False unfolding e by (simp add: event_append)
    qed
  qed
qed

lemma dias_loop_trace:
  "dias_loop rt env cb canc total_days end_date fecha day_index polls regs = (exc, regs', evs)
   \<Longrightarrow> regs' = regs @ appended evs \<and> written evs = []
       \<and> (stays_cancelled canc \<longrightarrow> appended (after_cancel evs) = [])
       \<and> (stays_cancelled canc \<and> exc \<noteq> None \<longrightarrow> \<not> cancel_seen evs)"
proof (induction rt env cb canc total_days end_date fecha day_index polls regs
       arbitrary: exc regs' evs rule: dias_loop.induct)
  case (1 rt env cb canc total_days end_date fecha day_index polls regs)
  note run = "1.prems"
  show ?case
  proof (cases "fecha \<le> end_date")
    case False
    with run show ?thesis by (simp add: dias_loop.simps)
  next
    case inrange: True
    show ?thesis
    proof (cases "is_cancelled_now canc polls")
      case True
      with run inrange have "regs' = regs" "evs = poll_ev canc polls" "exc = None"
        by (simp_all add: dias_loop.simps)
      then show ?thesis by simp
    next
      case nc: False
      show ?thesis
      proof (cases "get_listado_avisos env fecha = []")
        case True
        show ?thesis
        proof (cases "date_max \<le> fecha")
          case last: True
          from run inrange nc True last have e: "regs' = regs"
            "evs = poll_ev canc polls @ report cb (day_pct rt (Suc day_index) total_days)"
            by (simp_all add: dias_loop.simps)
          show ?thesis using nc unfolding e by (simp add: event_append)
        next
          case more: False
          obtain x r es where rec:
            "dias_loop rt env cb canc total_days end_date (fecha + 1) (Suc day_index)
               (polled canc polls) regs = (x, r, es)"
            using prod_cases3 by blast
          have ih: "r = regs @ appended es \<and> written es = []
                      \<and> (stays_cancelled canc \<longrightarrow> appended (after_cancel es) = [])
                      \<and> (stays_cancelled canc \<and> x \<noteq> None \<longrightarrow> \<not> cancel_seen es)"
            using "1.IH"(1)[OF _ nc True more rec] inrange by simp
          from run inrange nc True more rec have e: "regs' = r" "exc = x"
            "evs = poll_ev canc polls @ report cb (day_pct rt (Suc day_index) total_days) @ es"
            by (simp_all add: dias_loop.simps)
          show ?thesis using ih nc unfolding e by (simp add: event_append)
        qed
      next
        case avs: False
        obtain r1 p1 es1 where inner:
          "avisos_loop rt env cb canc total_days fecha day_index
             (length (get_listado_avisos env fecha)) 1 (get_listado_avisos env fecha)
             (polled canc polls) regs = (r1, p1, es1)"
          using prod_cases3 by blast
        from avisos_loop_trace[OF inner] have t1: "r1 = regs @ appended es1" "written es1 = []"
          "appended (after_cancel es1) = []"
          "cancel_seen es1 \<longrightarrow> (\<exists>k<p1. is_cancelled_now canc k)" by auto
        show ?thesis
        proof (cases "is_cancelled_now canc p1")
          case True
          from run inrange nc avs inner True have e: "regs' = r1" "exc = None"
            "evs = poll_ev canc polls @ es1 @ poll_ev canc p1"
            by (simp_all add: dias_loop.simps)
          show ?thesis using t1 nc True unfolding e by (simp add: event_append)
        next
          case go: False
          have ns: "stays_cancelled canc \<longrightarrow> \<not> cancel_seen es1"
          proof (intro impI notI)
            assume st: "stays_cancelled canc" and "cancel_seen es1"
            with t1(4) obtain k where "k < p1" "is_cancelled_now canc k" by blast
            then have "is_cancelled_now canc p1"
              using stays_cancelled_later[OF st, of k p1] by simp
            with go show False by simp
          qed
          show ?thesis
          proof (cases "date_max \<le> fecha")
            case last: True
            from run inrange nc avs inner go last have e: "regs' = r1"
              "evs = poll_ev canc polls @ es1 @ poll_ev canc p1"
              by (simp_all add: dias_loop.simps)
            show ?thesis using t1 nc go ns unfolding e by (simp add: event_append)
          next
            case more: False
            obtain x r es where rec:
              "dias_loop rt env cb canc total_days end_date (fecha + 1) (Suc day_index)
                 (polled canc p1) r1 = (x, r, es)"
              using prod_cases3 by blast
            have ih: "r = r1 @ appended es \<and> written es = []
                        \<and> (stays_cancelled canc \<longrightarrow> appended (after_cancel es) = [])
                        \<and> (stays_cancelled canc \<and> x \<noteq> None \<longrightarrow> \<not> cancel_seen es)"
              using "1.IH"(2)[OF _ nc avs inner[symmetric] refl go more rec] inrange by simp
            from run inrange nc avs inner go more rec have e: "regs' = r" "exc = x"
              "evs = poll_ev canc polls @ es1 @ poll_ev canc p1 @ es"
              by (simp_all add: dias_loop.simps)
            show ?thesis using ih t1 nc go ns unfolding e by (simp add: event_append)
          qed
        qed
      qed
    qed
  qed
qed

section \<open>Whole runs\<close>

lemma comprar_run_facts:
  assumes r_def: "r = scrape_comprar_tics rt env start_date end_date output_dir cb canc"
  shows "(\<forall>e. run_result r = Inl e \<longrightarrow> run_events r = [])
    \<and> (\<forall>n. run_result r = Inr n \<longrightarrow> n = length (run_records r))
    \<and> run_records r = appended (run_events r)
    \<and> appended (after_cancel (run_events r)) = []
    \<and> written (run_events r)
        = (if run_records r = [] then []
           else [(output_dir, comprar_filename rt start_date end_date, comprar_columns,
                  map comprar_cells (run_records r))])"
proof (cases "iter_compras_pages env None")
  case (Inl e)
  then show ?thesis by (simp add: r_def scrape_comprar_tics_def)
next
  case (Inr soups)
  define rows where "rows = concat (map list_rows soups)"
  have u: "r = (if length rows = 0 then
                  \<lparr> run_result = Inr 0, run_records = [], run_events = report cb 100 \<rparr>
                else
                  (case rows_loop rt env cb canc (length rows) 1 rows 0 [] of
                     (records, evs) \<Rightarrow>
                       if records = [] then
                         \<lparr> run_result = Inr 0, run_records = records,
                           run_events = evs @ report cb 100 \<rparr>
                       else
                         \<lparr> run_result = Inr (length records), run_records = records,
                           run_events = evs
                             @ [Write output_dir (comprar_filename rt start_date end_date)
                                  comprar_columns (map comprar_cells records)]
                             @ report cb 100 \<rparr>))"
    unfolding r_def scrape_comprar_tics_def Let_def rows_def
    by (simp only: Inr sum.case)
  show ?thesis
  proof (cases "rows = []")
    case True
    with u show ?thesis by simp
  next
    case False
    obtain recs evs where l: "rows_loop rt env cb canc (length rows) 1 rows 0 [] = (recs, evs)"
      by (cases "rows_loop rt env cb canc (length rows) 1 rows 0 []") auto
    from rows_loop_trace[OF l] have t: "recs = appended evs" "written evs = []"
      "appended (after_cancel evs) = []" by auto
    show ?thesis
    proof (cases "recs = []")
      case True
      have "r = \<lparr> run_result = Inr 0, run_records = recs,
                  run_events = evs @ report cb 100 \<rparr>"
        using u False l True by simp
      then show ?thesis using t True by (simp add: event_append)
    next
      case ne: False
      have "r = \<lparr> run_result = Inr (length recs), run_records = recs,
                  run_events = evs
                    @ [Write output_dir (comprar_filename rt start_date end_date)
                         comprar_columns (map comprar_cells recs)]
                    @ report cb 100 \<rparr>"
        using u False l ne by simp
      then show ?thesis using t ne by (simp add: event_append)
    qed
  qed
qed

lemma robot_run_facts:
  assumes r_def: "r = scrape_comprar_tics_robot rt env start_date end_date output_dir cb canc"
  shows "(\<forall>e. run_result r = Inl e \<longrightarrow> run_events r = [])
    \<and> (\<forall>n. run_result r = Inr n \<longrightarrow> n = length (run_records r))
    \<and> run_records r = appended (run_events r)
    \<and> appended (after_cancel (run_events r)) = []
    \<and> written (run_events r)
        = (if run_records r = [] then []
           else [(output_dir, robot_filename rt start_date end_date, robot_columns,
                  map robot_cells (run_records r))])"
proof (cases env)
  case (Inl e)
  then show ?thesis by (simp add: r_def scrape_comprar_tics_robot_def ejecutar_robot_def)
next
  case (Inr pages)
  let ?st0 = "\<lparr> registros = [], total_procesos = 0, rb_polls = 0, returned = False \<rparr>"
  obtain st evs where l: "paginas_loop rt (Some 1) cb canc 1 pages ?st0 = (st, evs)"
    by (cases "paginas_loop rt (Some 1) cb canc 1 pages ?st0") auto
  from paginas_loop_trace[OF l] have t: "registros st = appended evs" "written evs = []"
    "appended (after_cancel evs) = []" by auto
  have ex: "ejecutar_robot rt env (Some 1) cb canc = Inr (registros st, evs)"
    using Inr l by (simp add: ejecutar_robot_def)
  show ?thesis
  proof (cases "registros st = []")
    case True
    have "r = \<lparr> run_result = Inr 0, run_records = registros st,
                run_events = evs @ report cb 100 \<rparr>"
      using ex True by (simp add: r_def scrape_comprar_tics_robot_def)
    then show ?thesis using t True by (simp add: event_append)
  next
    case ne: False
    have "r = \<lparr> run_result = Inr (length (registros st)), run_records = registros st,
                run_events = evs
                  @ [Write output_dir (robot_filename rt start_date end_date)
                       robot_columns (map robot_cells (registros st))]
                  @ report cb 100 \<rparr>"
      using ex ne by (simp add: r_def scrape_comprar_tics_robot_def)
    then show ?thesis using t ne by (simp add: event_append)
  qed
qed

lemma boletin_run_facts:
  assumes r_def: "r = scrape_boletin_tercera rt env start_date end_date output_dir cb canc"
  shows "run_records r = appended (run_events r)
    \<and> (stays_cancelled canc \<longrightarrow> appended (after_cancel (run_events r)) = [])
    \<and> (\<forall>n. run_result r = Inr n \<longrightarrow> n = length (run_records r)
          \<and> written (run_events r)
              = (if run_records r = [] then []
                 else [(output_dir, boletin_filename rt start_date end_date, boletin_columns,
                        map boletin_cells (run_records r))]))
    \<and> (\<forall>e. run_result r = Inl e \<longrightarrow> written (run_events r) = [])
    \<and> (stays_cancelled canc \<and> cancel_seen (run_events r) \<longrightarrow>
          run_result r
            = (if run_records r = [] then Inr 0
               else case to_excel env output_dir (boletin_filename rt start_date end_date) of
                      None \<Rightarrow> Inr (length (run_records r))
                    | Some e \<Rightarrow> Inl e))"
proof (cases "end_date < start_date")
  case True
  then show ?thesis by (simp add: r_def scrape_boletin_tercera_def)
next
  case False
  let ?td = "if end_date - start_date + 1 \<le> 0 then 1 else end_date - start_date + 1"
  obtain x regs evs where l:
    "dias_loop rt env cb canc ?td end_date start_date 0 0 [] = (x, regs, evs)"
    using prod_cases3 by blast
  from dias_loop_trace[OF l] have t: "regs = appended evs" "written evs = []"
    "stays_cancelled canc \<longrightarrow> appended (after_cancel evs) = []"
    "stays_cancelled canc \<and> x \<noteq> None \<longrightarrow> \<not> cancel_seen evs" by auto
  show ?thesis
  proof (cases x)
    case (Some exc)
    have "r = \<lparr> run_result = Inl exc, run_records = regs, run_events = evs \<rparr>"
      using False l Some by (simp add: r_def scrape_boletin_tercera_def Let_def)
    then show ?thesis using t Some by auto
  next
    case None
    show ?thesis
    proof (cases "regs = []")
      case True
      have "r = \<lparr> run_result = Inr 0, run_records = regs, run_events = evs \<rparr>"
        using False l None True by (simp add: r_def scrape_boletin_tercera_def Let_def)
      then show ?thesis using t True by simp
    next
      case ne: False
      show ?thesis
      proof (cases "to_excel env output_dir (boletin_filename rt start_date end_date)")
        case ok: None
        have "r = \<lparr> run_result = Inr (length regs), run_records = regs,
                    run_events = evs
                      @ [Write output_dir (boletin_filename rt start_date end_date)
                           boletin_columns (map boletin_cells regs)] \<rparr>"
          using False l None ne ok by (simp add: r_def scrape_boletin_tercera_def Let_def)
        then show ?thesis using t ne ok by (simp add: event_append)
      next
        case (Some exc)
        have "r = \<lparr> run_result = Inl exc, run_records = regs, run_events = evs \<rparr>"
          using False l None ne Some by (simp add: r_def scrape_boletin_tercera_def Let_def)
        then show ?thesis using t ne Some by simp
      qed
    qed
  qed
qed

section \<open>Claims about whole runs\<close>


lemma hoja_comprar: "zip comprar_columns (comprar_cells r) = campos_comprar r"
  by (simp add: comprar_columns_def comprar_cells_def campos_comprar_def)

lemma hoja_robot: "zip robot_columns (robot_cells r) = campos_robot r"
  by (simp add: robot_columns_def robot_cells_def campos_robot_def)

lemma hoja_boletin: "zip boletin_columns (boletin_cells r) = campos_boletin r"
  by (simp add: boletin_columns_def boletin_cells_def campos_boletin_def)


text \<open>
  C6.  For each of the three adapters and every run that completes (returns a count
  \<open>n\<close>): if the run produced no record, \<open>n\<close> is 0 and no file is written; if it produced
  at least one, \<open>n\<close> is their number and exactly one spreadsheet is written, into
  \<open>output_dir\<close>, under a name made of the adapter's prefix, the start date and the end date
  as \<open>%Y%m%d\<close>, and \<open>.xlsx\<close>; it has one row per record, in order, and a row shows under each
  column the value of the record's field.
\<close>

theorem no_records_no_file_else_one_dated_file:
  assumes "r1 = scrape_comprar_tics rt env1 start_date end_date output_dir cb canc"
    and "r2 = scrape_comprar_tics_robot rt env2 start_date end_date output_dir cb canc"
    and "r3 = scrape_boletin_tercera rt env3 start_date end_date output_dir cb canc"
  shows
    "(run_result r1 = Inr n1 \<longrightarrow>
        (run_records r1 = [] \<longrightarrow> n1 = 0 \<and> written (run_events r1) = [])
      \<and> (run_records r1 \<noteq> [] \<longrightarrow> n1 = length (run_records r1)
          \<and> written (run_events r1)
              = [(output_dir,
                  py ''comprar_tics_'' @ rt_strftime rt start_date @ py ''_''
                    @ rt_strftime rt end_date @ py ''.xlsx'',
                  comprar_columns, map comprar_cells (run_records r1))]))
   \<and> (run_result r2 = Inr n2 \<longrightarrow>
        (run_records r2 = [] \<longrightarrow> n2 = 0 \<and> written (run_events r2) = [])
      \<and> (run_records r2 \<noteq> [] \<longrightarrow> n2 = length (run_records r2)
          \<and> written (run_events r2)
              = [(output_dir,
                  py ''comprar_selenium_'' @ rt_strftime rt start_date @ py ''_''
                    @ rt_strftime rt end_date @ py ''.xlsx'',
                  robot_columns, map robot_cells (run_records r2))]))
   \<and> (run_result r3 = Inr n3 \<longrightarrow>
        (run_records r3 = [] \<longrightarrow> n3 = 0 \<and> written (run_events r3) = [])
      \<and> (run_records r3 \<noteq> [] \<longrightarrow> n3 = length (run_records r3)
          \<and> written (run_events r3)
              = [(output_dir,
                  py ''contrataciones_tercera_'' @ rt_strftime rt start_date @ py ''_''
                    @ rt_strftime rt end_date @ py ''.xlsx'',
                  boletin_columns, map boletin_cells (run_records r3))]))
   \<and> (\<forall>r. zip comprar_columns (comprar_cells r) = campos_comprar r)
   \<and> (\<forall>r. zip robot_columns (robot_cells r) = campos_robot r)
   \<and> (\<forall>r. zip boletin_columns (boletin_cells r) = campos_boletin r)"
proof -
  note f1 = comprar_run_facts[OF assms(1)]
  note f2 = robot_run_facts[OF assms(2)]
  note f3 = boletin_run_facts[OF assms(3)]
  have a: "run_result r1 = Inr n1 \<longrightarrow>
        (run_records r1 = [] \<longrightarrow> n1 = 0 \<and> written (run_events r1) = [])
      \<and> (run_records r1 \<noteq> [] \<longrightarrow> n1 = length (run_records r1)
          \<and> written (run_events r1)
              = [(output_dir,
                  py ''comprar_tics_'' @ rt_strftime rt start_date @ py ''_''
                    @ rt_strftime rt end_date @ py ''.xlsx'',
                  comprar_columns, map comprar_cells (run_records r1))])"
    using f1 by (auto simp: comprar_filename_def)
  have b: "run_result r2 = Inr n2 \<longrightarrow>
        (run_records r2 = [] \<longrightarrow> n2 = 0 \<and> written (run_events r2) = [])
      \<and> (run_records r2 \<noteq> [] \<longrightarrow> n2 = length (run_records r2)
          \<and> written (run_events r2)
              = [(output_dir,
                  py ''comprar_selenium_'' @ rt_strftime rt start_date @ py ''_''
                    @ rt_strftime rt end_date @ py ''.xlsx'',
                  robot_columns, map robot_cells (run_records r2))])"
    using f2 by (auto simp: robot_filename_def)
  have c: "run_result r3 = Inr n3 \<longrightarrow>
        (run_records r3 = [] \<longrightarrow> n3 = 0 \<and> written (run_events r3) = [])
      \<and> (run_records r3 \<noteq> [] \<longrightarrow> n3 = length (run_records r3)
          \<and> written (run_events r3)
              = [(output_dir,
                  py ''contrataciones_tercera_'' @ rt_strftime rt start_date @ py ''_''
                    @ rt_strftime rt end_date @ py ''.xlsx'',
                  boletin_columns, map boletin_cells (run_records r3))])"
    using f3 by (auto simp: boletin_filename_def)
  from a b c hoja_comprar hoja_robot hoja_boletin show ?thesis by blast
qed

lemma forget_write [simp]:
  "map forget_filename (a @ Write d f cols rows # b)
   = map forget_filename a @ Write d [] cols rows # map forget_filename b"
  by simp

text \<open>
  C9.  For the two COMPR.AR adapters, two runs that differ only in the date arguments (same
  pages, same answers of the cancel predicate, same callback) return the same count, end
  with the same records and cause the same events, up to the name of the written file.
\<close>

theorem comprar_dates_only_name_the_file:
  "run_result (scrape_comprar_tics rt env s1 e1 output_dir cb canc)
     = run_result (scrape_comprar_tics rt env s2 e2 output_dir cb canc)
   \<and> run_records (scrape_comprar_tics rt env s1 e1 output_dir cb canc)
     = run_records (scrape_comprar_tics rt env s2 e2 output_dir cb canc)
   \<and> map forget_filename (run_events (scrape_comprar_tics rt env s1 e1 output_dir cb canc))
     = map forget_filename (run_events (scrape_comprar_tics rt env s2 e2 output_dir cb canc))
   \<and> run_result (scrape_comprar_tics_robot rt renv s1 e1 output_dir cb canc)
     = run_result (scrape_comprar_tics_robot rt renv s2 e2 output_dir cb canc)
   \<and> run_records (scrape_comprar_tics_robot rt renv s1 e1 output_dir cb canc)
     = run_records (scrape_comprar_tics_robot rt renv s2 e2 output_dir cb canc)
   \<and> map forget_filename (run_events (scrape_comprar_tics_robot rt renv s1 e1 output_dir cb canc))
     = map forget_filename (run_events (scrape_comprar_tics_robot rt renv s2 e2 output_dir cb canc))"
proof -
  have h: "run_result (scrape_comprar_tics rt env s1 e1 output_dir cb canc)
     = run_result (scrape_comprar_tics rt env s2 e2 output_dir cb canc)
   \<and> run_records (scrape_comprar_tics rt env s1 e1 output_dir cb canc)
     = run_records (scrape_comprar_tics rt env s2 e2 output_dir cb canc)
   \<and> map forget_filename (run_events (scrape_comprar_tics rt env s1 e1 output_dir cb canc))
     = map forget_filename (run_events (scrape_comprar_tics rt env s2 e2 output_dir cb canc))"
    unfolding scrape_comprar_tics_def Let_def
    by (simp split: sum.splits prod.splits)
  have g: "run_result (scrape_comprar_tics_robot rt renv s1 e1 output_dir cb canc)
     = run_result (scrape_comprar_tics_robot rt renv s2 e2 output_dir cb canc)
   \<and> run_records (scrape_comprar_tics_robot rt renv s1 e1 output_dir cb canc)
     = run_records (scrape_comprar_tics_robot rt renv s2 e2 output_dir cb canc)
   \<and> map forget_filename (run_events (scrape_comprar_tics_robot rt renv s1 e1 output_dir cb canc))
     = map forget_filename (run_events (scrape_comprar_tics_robot rt renv s2 e2 output_dir cb canc))"
    unfolding scrape_comprar_tics_robot_def
    by (simp split: sum.splits prod.splits)
  from h g show ?thesis by blast
qed

section \<open>The list-page walker\<close>

lemma ceiling_div_nat:
  assumes "P \<noteq> 0"
  shows "int ((N + P - 1) div P) = \<lceil>(of_nat N :: rat) / of_nat P\<rceil>"
proof -
  define z where "z = (N + P - 1) div P"
  have P0: "0 < P" using assms by simp
  have lo: "z * P \<le> N + P - 1" unfolding z_def by (rule div_times_less_eq_dividend)
  have hi: "N + P - 1 < P + z * P" unfolding z_def using P0 by (rule dividend_less_div_times)
  have a: "N \<le> z * P" using hi P0 by linarith
  have b: "z * P < N + P" using lo P0 by linarith
  have pr: "(0::rat) < of_nat P" using P0 by simp
  have le: "(of_nat N :: rat) / of_nat P \<le> of_int (int z)"
  proof -
    have "(of_nat N :: rat) \<le> of_nat (z * P)" using a by (simp only: of_nat_le_iff)
    then have "(of_nat N :: rat) \<le> of_nat z * of_nat P" by simp
    then show ?thesis using pr by (simp add: pos_divide_le_eq)
  qed
  have gt: "of_int (int z) - 1 < (of_nat N :: rat) / of_nat P"
  proof -
    have "(of_nat (z * P) :: rat) < of_nat (N + P)" using b by (simp only: of_nat_less_iff)
    then have "(of_nat z * of_nat P :: rat) < of_nat N + of_nat P" by simp
    then have "(of_nat z - 1) * of_nat P < (of_nat N :: rat)" by (simp add: algebra_simps)
    then show ?thesis using pr by (simp add: pos_less_divide_eq)
  qed
  have "\<lceil>(of_nat N :: rat) / of_nat P\<rceil> = int z" using gt le by (rule ceiling_unique)
  then show ?thesis by (simp add: z_def)
qed

lemma takeWhile_less_upt: "takeWhile (\<lambda>k. k < b) [a ..< c] = [a ..< min b c]"
proof (induction c)
  case 0
  then show ?case by simp
next
  case (Suc c)
  show ?case
  proof (cases "a \<le> c")
    case False
    then show ?thesis by simp
  next
    case True
    then have u: "[a ..< Suc c] = [a ..< c] @ [c]" by simp
    show ?thesis
    proof (cases "c < b")
      case True
      have "takeWhile (\<lambda>k. k < b) ([a ..< c] @ [c])
            = [a ..< c] @ takeWhile (\<lambda>k. k < b) [c]"
        by (rule takeWhile_append2) (use True in simp)
      then have "takeWhile (\<lambda>k. k < b) ([a ..< c] @ [c]) = [a ..< c] @ [c]"
        using True by simp
      moreover have "min b (Suc c) = Suc c" using True by simp
      ultimately show ?thesis using u by simp
    next
      case False
      then have m: "min b (Suc c) = min b c" by simp
      show ?thesis
      proof (cases "b \<le> a")
        case True
        have "[a ..< Suc c] = a # [Suc a ..< Suc c]"
          using \<open>a \<le> c\<close> by (intro upt_conv_Cons) simp
        then have "takeWhile (\<lambda>k. k < b) [a ..< Suc c] = []"
          using True by (simp del: upt_Suc)
        moreover have "[a ..< min b (Suc c)] = []" using True by simp
        ultimately show ?thesis by (simp only:)
      next
        case ba: False
        show ?thesis
        proof (cases "b = c")
          case True
          have "takeWhile (\<lambda>k. k < b) ([a ..< c] @ [c])
                = [a ..< c] @ takeWhile (\<lambda>k. k < b) [c]"
            by (rule takeWhile_append2) (simp add: True)
          then have "takeWhile (\<lambda>k. k < b) ([a ..< c] @ [c]) = [a ..< c]"
            using True by simp
          moreover have "min b (Suc c) = c" using True by simp
          ultimately show ?thesis using u by simp
        next
          case bc: False
          have "b \<in> set [a ..< c]" "\<not> b < b" using ba bc False by auto
          then have "takeWhile (\<lambda>k. k < b) ([a ..< c] @ [c]) = takeWhile (\<lambda>k. k < b) [a ..< c]"
            by (intro takeWhile_append1)
          with Suc.IH u m show ?thesis by simp
        qed
      qed
    qed
  qed
qed

lemma not_over_max_Some: "\<not> over_max (Some m) k \<longleftrightarrow> k < nat (m + 1)"
  by (auto simp: over_max_def)

lemma pages_asked:
  "takeWhile (\<lambda>k. \<not> over_max max_pages k) [2 ..< total_pages + 1]
   = [2 ..< Suc (last_page total_pages max_pages)]"
proof (cases max_pages)
  case None
  then show ?thesis by (simp add: over_max_def last_page_def)
next
  case (Some m)
  have "takeWhile (\<lambda>k. \<not> over_max (Some m) k) [2 ..< total_pages + 1]
        = [2 ..< min (nat (m + 1)) (total_pages + 1)]"
    unfolding not_over_max_Some by (rule takeWhile_less_upt)
  also have "\<dots> = [2 ..< Suc (min total_pages (nat m))]"
  proof (cases "0 \<le> m")
    case True
    then have "nat (m + 1) = Suc (nat m)" by simp
    then show ?thesis by (simp add: min.commute)
  next
    case False
    then show ?thesis by simp
  qed
  finally show ?thesis using Some by (simp add: last_page_def)
qed

lemma linked_length: "linked env target cur ks chain \<Longrightarrow> length chain = length ks"
  by (induction env target cur ks chain rule: linked.induct) simp_all

lemma postback_loop_linked:
  assumes ok: "\<forall>cur k. \<exists>s. post_page env cur target k = Inr s"
  shows "\<exists>chain. postback_loop env max_pages target pages cur soups = Inr (soups @ chain)
           \<and> linked env target cur (takeWhile (\<lambda>k. \<not> over_max max_pages k) pages) chain"
proof (induction pages arbitrary: cur soups)
  case Nil
  then show ?case by simp
next
  case (Cons page pages)
  show ?case
  proof (cases "over_max max_pages page")
    case True
    then show ?thesis by simp
  next
    case False
    from ok obtain s where s: "post_page env cur target page = Inr s" by blast
    from Cons.IH[of s "soups @ [s]"] obtain chain where
      c: "postback_loop env max_pages target pages s (soups @ [s]) = Inr ((soups @ [s]) @ chain)"
         "linked env target s (takeWhile (\<lambda>k. \<not> over_max max_pages k) pages) chain"
      by blast
    have "postback_loop env max_pages target (page # pages) cur soups = Inr (soups @ s # chain)"
      using False s c(1) by simp
    moreover have "linked env target cur
                     (takeWhile (\<lambda>k. \<not> over_max max_pages k) (page # pages)) (s # chain)"
      using False s c(2) by simp
    ultimately show ?thesis by blast
  qed
qed

lemma followed_length: "followed env idx urls chain \<Longrightarrow> length chain = length urls"
  by (induction env idx urls chain rule: followed.induct) simp_all

lemma simple_links_loop_followed:
  assumes ok: "\<forall>idx url. \<exists>s. get_page env idx url = Inr s"
  shows "\<exists>chain. simple_links_loop env max_pages idx links soups = Inr (soups @ chain)
           \<and> followed env idx
                (case max_pages of None \<Rightarrow> links
                 | Some m \<Rightarrow> take (nat (m + 1 - int idx)) links) chain"
proof (induction links arbitrary: idx soups)
  case Nil
  show ?case by (cases max_pages) simp_all
next
  case (Cons url urls)
  show ?case
  proof (cases "over_max max_pages idx")
    case True
    then obtain m where m: "max_pages = Some m" "int idx > m"
      by (cases max_pages) (auto simp: over_max_def)
    then have "nat (m + 1 - int idx) = 0" by simp
    with True m show ?thesis by simp
  next
    case False
    from ok obtain s where s: "get_page env idx url = Inr s" by blast
    from Cons.IH[of "Suc idx" "soups @ [s]"] obtain chain where c:
      "simple_links_loop env max_pages (Suc idx) urls (soups @ [s]) = Inr ((soups @ [s]) @ chain)"
      "followed env (Suc idx)
         (case max_pages of None \<Rightarrow> urls
          | Some m \<Rightarrow> take (nat (m + 1 - int (Suc idx))) urls) chain"
      by blast
    have run: "simple_links_loop env max_pages idx (url # urls) soups = Inr (soups @ s # chain)"
      using False s c(1) by simp
    have fol: "followed env idx
                (case max_pages of None \<Rightarrow> url # urls
                 | Some m \<Rightarrow> take (nat (m + 1 - int idx)) (url # urls)) (s # chain)"
    proof (cases max_pages)
      case None
      with c(2) s show ?thesis by simp
    next
      case (Some m)
      with False have le: "int idx \<le> m" by (simp add: over_max_def)
      then have n: "nat (m + 1 - int idx) = Suc (nat (m + 1 - int (Suc idx)))"
        by simp
      from Some c(2) s show ?thesis by (simp only: n option.case take_Suc_Cons followed.simps)
    qed
    from run fol show ?thesis by blast
  qed
qed

text \<open>
  C8, as the code has it.  For a first page with a detected result count \<open>N\<close> and a
  non-zero page size \<open>P\<close> the expected page count is \<open>(N + P - 1) div P\<close>, the ceiling of
  \<open>N / P\<close>.  The walker tries the simple numbered links first.  When the page has none:
  without a pager target, or with an expected count of at most 1, the walker returns page 1
  alone; otherwise, when every postback is answered, it returns page 1 followed by the
  answers to the postbacks \<open>Page$2\<close> up to \<open>Page$k\<close>, each posted from the page before,
  where \<open>k\<close> is the expected count cut at \<open>max_pages\<close>.  When the page has numbered links
  and every GET is answered, it returns page 1 followed by the answers to the GETs of the
  links, in order, the first link counting as page 2 and none being asked past
  \<open>max_pages\<close>, whatever the expected count and the pager target are.
\<close>

theorem iter_compras_pages_links_then_postback:
  assumes "get_listing env = Inr sp"
    and "total_results sp = Some N"
    and "length (list_rows sp) = P" and "P \<noteq> 0"
  shows "total_pages_of sp = Some ((N + P - 1) div P)
    \<and> int ((N + P - 1) div P) = \<lceil>(of_nat N :: rat) / of_nat P\<rceil>
    \<and> (simple_pager_links sp = []
          \<and> (\<not> truthy (pager_target sp) \<or> (N + P - 1) div P \<le> 1)
          \<longrightarrow> iter_compras_pages env max_pages = Inr [sp])
    \<and> (simple_pager_links sp = []
          \<and> pager_target sp = Some target \<and> target \<noteq> [] \<and> 1 < (N + P - 1) div P
          \<and> (\<forall>cur k. \<exists>s. post_page env cur target k = Inr s)
          \<longrightarrow> (\<exists>chain. iter_compras_pages env max_pages = Inr (sp # chain)
                 \<and> linked env target sp
                      [2 ..< Suc (last_page ((N + P - 1) div P) max_pages)] chain
                 \<and> length (sp # chain) = max 1 (last_page ((N + P - 1) div P) max_pages)))
    \<and> (simple_pager_links sp \<noteq> [] \<and> (\<forall>idx url. \<exists>s. get_page env idx url = Inr s)
          \<longrightarrow> (\<exists>chain. iter_compras_pages env max_pages = Inr (sp # chain)
                 \<and> followed env 2 (links_asked max_pages (simple_pager_links sp)) chain
                 \<and> length chain = length (links_asked max_pages (simple_pager_links sp))))"
proof -
  let ?T = "(N + P - 1) div P"
  have tp: "total_pages_of sp = Some ?T"
    using assms(2,3,4) by (simp add: total_pages_of_def)
  have ce: "int ?T = \<lceil>(of_nat N :: rat) / of_nat P\<rceil>" using assms(4) by (rule ceiling_div_nat)
  have one: "simple_pager_links sp = [] \<and> (\<not> truthy (pager_target sp) \<or> ?T \<le> 1)
               \<longrightarrow> iter_compras_pages env max_pages = Inr [sp]"
    using assms(1) tp
    by (auto simp: iter_compras_pages_def truthy_def split: option.splits)
  have more: "simple_pager_links sp = []
          \<and> pager_target sp = Some target \<and> target \<noteq> [] \<and> 1 < ?T
          \<and> (\<forall>cur k. \<exists>s. post_page env cur target k = Inr s)
          \<longrightarrow> (\<exists>chain. iter_compras_pages env max_pages = Inr (sp # chain)
                 \<and> linked env target sp [2 ..< Suc (last_page ?T max_pages)] chain
                 \<and> length (sp # chain) = max 1 (last_page ?T max_pages))"
  proof (intro impI)
    assume h: "simple_pager_links sp = []
          \<and> pager_target sp = Some target \<and> target \<noteq> [] \<and> 1 < ?T
          \<and> (\<forall>cur k. \<exists>s. post_page env cur target k = Inr s)"
    then have it: "iter_compras_pages env max_pages
                   = postback_loop env max_pages target [2 ..< ?T + 1] sp [sp]"
      using assms(1) tp by (simp add: iter_compras_pages_def)
    from h have ok: "\<forall>cur k. \<exists>s. post_page env cur target k = Inr s" by blast
    from postback_loop_linked[OF ok, of max_pages "[2 ..< ?T + 1]" sp "[sp]"]
    obtain chain where c:
      "postback_loop env max_pages target [2 ..< ?T + 1] sp [sp] = Inr ([sp] @ chain)"
      "linked env target sp (takeWhile (\<lambda>k. \<not> over_max max_pages k) [2 ..< ?T + 1]) chain"
      by blast
    from c(2) have l: "linked env target sp [2 ..< Suc (last_page ?T max_pages)] chain"
      by (simp only: pages_asked)
    from linked_length[OF l] have "length chain = Suc (last_page ?T max_pages) - 2"
      by (simp del: upt_Suc)
    then have "length (sp # chain) = max 1 (last_page ?T max_pages)" by auto
    with it c(1) l show "\<exists>chain. iter_compras_pages env max_pages = Inr (sp # chain)
                 \<and> linked env target sp [2 ..< Suc (last_page ?T max_pages)] chain
                 \<and> length (sp # chain) = max 1 (last_page ?T max_pages)"
      by auto
  qed
  have links: "simple_pager_links sp \<noteq> [] \<and> (\<forall>idx url. \<exists>s. get_page env idx url = Inr s)
          \<longrightarrow> (\<exists>chain. iter_compras_pages env max_pages = Inr (sp # chain)
                 \<and> followed env 2 (links_asked max_pages (simple_pager_links sp)) chain
                 \<and> length chain = length (links_asked max_pages (simple_pager_links sp)))"
  proof (intro impI)
    assume h: "simple_pager_links sp \<noteq> [] \<and> (\<forall>idx url. \<exists>s. get_page env idx url = Inr s)"
    then have it: "iter_compras_pages env max_pages
                   = simple_links_loop env max_pages 2 (simple_pager_links sp) [sp]"
      using assms(1) by (simp add: iter_compras_pages_def)
    from h have ok: "\<forall>idx url. \<exists>s. get_page env idx url = Inr s" by blast
    from simple_links_loop_followed[OF ok, of max_pages 2 "simple_pager_links sp" "[sp]"]
    obtain chain where c:
      "simple_links_loop env max_pages 2 (simple_pager_links sp) [sp] = Inr ([sp] @ chain)"
      "followed env 2
         (case max_pages of None \<Rightarrow> simple_pager_links sp
          | Some m \<Rightarrow> take (nat (m + 1 - int 2)) (simple_pager_links sp)) chain"
      by blast
    have "(case max_pages of None \<Rightarrow> simple_pager_links sp
           | Some m \<Rightarrow> take (nat (m + 1 - int 2)) (simple_pager_links sp))
          = links_asked max_pages (simple_pager_links sp)"
      by (cases max_pages) (simp_all add: links_asked_def)
    with c(2) have f: "followed env 2 (links_asked max_pages (simple_pager_links sp)) chain"
      by simp
    from followed_length[OF f] it c(1) f
    show "\<exists>chain. iter_compras_pages env max_pages = Inr (sp # chain)
                 \<and> followed env 2 (links_asked max_pages (simple_pager_links sp)) chain
                 \<and> length chain = length (links_asked max_pages (simple_pager_links sp))"
      by auto
  qed
  from tp ce one more links show ?thesis by blast
qed

text \<open>
  On the two-page listing paged by postback: 15 results at 12 per page make 2 pages, and the
  walker returns both, or the first alone under \<open>max_pages = 1\<close>.  On the listing with one
  numbered link: the walker returns page 1 and the linked page, or page 1 alone under
  \<open>max_pages = 1\<close>.
\<close>

theorem iter_compras_pages_links_then_postback_witness:
  "total_pages_of pagina_uno = Some 2
   \<and> iter_compras_pages red_ejemplo None = Inr [pagina_uno, pagina_dos]
   \<and> iter_compras_pages red_ejemplo (Some 1) = Inr [pagina_uno]
   \<and> iter_compras_pages red_con_links None = Inr [pagina_con_links, pagina_dos]
   \<and> iter_compras_pages red_con_links (Some 1) = Inr [pagina_con_links]"
proof -
  let ?target = "py ''ctl00$CPH1$GridListaPliegos''"
  have a: "get_listing red_ejemplo = Inr pagina_uno" by (simp add: red_ejemplo_def)
  have b: "total_results pagina_uno = Some 15" by (simp add: pagina_uno_def)
  have c: "length (list_rows pagina_uno) = 12" by (simp add: pagina_uno_def)
  have d: "(12::nat) \<noteq> 0" by simp
  have T: "(15 + 12 - 1) div 12 = (2::nat)" by simp
  have pre: "simple_pager_links pagina_uno = []
          \<and> pager_target pagina_uno = Some ?target \<and> ?target \<noteq> [] \<and> (1::nat) < 2
          \<and> (\<forall>cur k. \<exists>s. post_page red_ejemplo cur ?target k = Inr s)"
    by (simp add: pagina_uno_def red_ejemplo_def py_def)
  note thN = iter_compras_pages_links_then_postback[OF a b c d,
      where target = ?target and max_pages = None, unfolded T]
  note th1 = iter_compras_pages_links_then_postback[OF a b c d,
      where target = ?target and max_pages = "Some 1", unfolded T]
  from thN[THEN conjunct2, THEN conjunct2, THEN conjunct2, THEN conjunct1] pre
  obtain chain where
    ch: "iter_compras_pages red_ejemplo None = Inr (pagina_uno # chain)"
        "linked red_ejemplo ?target pagina_uno [2 ..< Suc (last_page 2 None)] chain"
    by blast
  have "[2 ..< Suc (last_page 2 None)] = [2]" by (simp add: last_page_def upt_conv_Cons)
  with ch(2) have "chain = [pagina_dos]"
    by (cases chain) (auto simp: red_ejemplo_def)
  with ch(1) have r1: "iter_compras_pages red_ejemplo None = Inr [pagina_uno, pagina_dos]" by simp
  from th1[THEN conjunct2, THEN conjunct2, THEN conjunct2, THEN conjunct1] pre
  obtain chain' where
    ch': "iter_compras_pages red_ejemplo (Some 1) = Inr (pagina_uno # chain')"
         "length (pagina_uno # chain') = max 1 (last_page 2 (Some 1))"
    by blast
  from ch'(2) have "chain' = []" by (simp add: last_page_def)
  with ch'(1) have r2: "iter_compras_pages red_ejemplo (Some 1) = Inr [pagina_uno]" by simp
  have tp: "total_pages_of pagina_uno = Some 2"
    by (rule thN[THEN conjunct1])
  have a': "get_listing red_con_links = Inr pagina_con_links" by (simp add: red_con_links_def)
  have b': "total_results pagina_con_links = Some 3" by (simp add: pagina_con_links_def)
  have c': "length (list_rows pagina_con_links) = 1" by (simp add: pagina_con_links_def)
  have d': "(1::nat) \<noteq> 0" by simp
  note lkN = iter_compras_pages_links_then_postback[OF a' b' c' d',
      where target = ?target and max_pages = None,
      THEN conjunct2, THEN conjunct2, THEN conjunct2, THEN conjunct2]
  note lk1 = iter_compras_pages_links_then_postback[OF a' b' c' d',
      where target = ?target and max_pages = "Some 1",
      THEN conjunct2, THEN conjunct2, THEN conjunct2, THEN conjunct2]
  have pre': "simple_pager_links pagina_con_links \<noteq> []
          \<and> (\<forall>idx url. \<exists>s. get_page red_con_links idx url = Inr s)"
    by (simp add: pagina_con_links_def red_con_links_def)
  have la: "links_asked None (simple_pager_links pagina_con_links)
             = [py ''https://comprar.gob.ar/Compras.aspx?page=2'']"
    "links_asked (Some 1) (simple_pager_links pagina_con_links) = []"
    by (simp_all add: links_asked_def pagina_con_links_def)
  from lkN pre' obtain chain2 where
    c2: "iter_compras_pages red_con_links None = Inr (pagina_con_links # chain2)"
        "followed red_con_links 2 (links_asked None (simple_pager_links pagina_con_links)) chain2"
    by blast
  from c2(2) have "chain2 = [pagina_dos]"
    unfolding la by (cases chain2) (auto simp: red_con_links_def)
  with c2(1) have r3: "iter_compras_pages red_con_links None = Inr [pagina_con_links, pagina_dos]"
    by simp
  from lk1 pre' obtain chain3 where
    c3: "iter_compras_pages red_con_links (Some 1) = Inr (pagina_con_links # chain3)"
        "length chain3 = length (links_asked (Some 1) (simple_pager_links pagina_con_links))"
    by blast
  from c3(2) have "chain3 = []" unfolding la by simp
  with c3(1) have r4: "iter_compras_pages red_con_links (Some 1) = Inr [pagina_con_links]"
    by simp
  from tp r1 r2 r3 r4 show ?thesis by blast
qed

text \<open>
  The claim as stated fails on a first page with numbered links: with 3 results at 1 per page
  (3 expected pages) and no pager target, the walker returns neither page 1 alone nor 3
  pages, but page 1 and the one linked page.
\<close>

theorem iter_compras_pages_simple_links_counterexample:
  "get_listing red_con_links = Inr pagina_con_links
   \<and> total_results pagina_con_links = Some 3
   \<and> length (list_rows pagina_con_links) = 1
   \<and> total_pages_of pagina_con_links = Some 3
   \<and> pager_target pagina_con_links = None
   \<and> iter_compras_pages red_con_links None = Inr [pagina_con_links, pagina_dos]
   \<and> iter_compras_pages red_con_links None \<noteq> Inr [pagina_con_links]"
  by (simp add: red_con_links_def pagina_con_links_def total_pages_of_def
      iter_compras_pages_def over_max_def py_def)

section \<open>Progress values\<close>

lemma py_trunc_mono: "x \<le> y \<Longrightarrow> py_trunc x \<le> py_trunc y"
proof -
  assume le: "x \<le> y"
  consider "0 \<le> x" | "x < 0" "0 \<le> y" | "x < 0" "y < 0" by linarith
  then show ?thesis
  proof cases
    case 1
    with le have "0 \<le> y" by simp
    with 1 le show ?thesis by (simp add: py_trunc_def floor_mono)
  next
    case 2
    then have a: "\<lceil>x\<rceil> \<le> 0" by (simp add: ceiling_le_zero)
    from 2 have b: "0 \<le> \<lfloor>y\<rfloor>" by simp
    from 2 have "py_trunc x = \<lceil>x\<rceil>" "py_trunc y = \<lfloor>y\<rfloor>"
      by (simp_all add: py_trunc_def)
    with a b show ?thesis by linarith
  next
    case 3
    with le show ?thesis by (simp add: py_trunc_def ceiling_mono)
  qed
qed

lemma py_trunc_of_nat [simp]: "py_trunc (of_nat n) = int n"
  by (simp add: py_trunc_def)

lemma round_okD:
  assumes "round_ok rt N"
  shows "x \<le> y \<Longrightarrow> rt_round rt x \<le> rt_round rt y"
    and "n \<le> N \<Longrightarrow> rt_round rt (of_nat n) = of_nat n"
  using assms by (auto simp: round_ok_def)

lemma round_between:
  assumes ok: "round_ok rt N" and "a \<le> N" "b \<le> N" "of_nat a \<le> x" "x \<le> of_nat b"
  shows "of_nat a \<le> rt_round rt x \<and> rt_round rt x \<le> of_nat b"
  using round_okD(1)[OF ok assms(4)] round_okD(1)[OF ok assms(5)]
    round_okD(2)[OF ok assms(2)] round_okD(2)[OF ok assms(3)] by simp

lemma sorted_Cons_ge: "sorted xs \<Longrightarrow> \<forall>y \<in> set xs. x \<le> y \<Longrightarrow> sorted (x # xs)"
  by simp

subsection \<open>The HTTP adapter\<close>

lemma row_progress_mono:
  assumes ok: "round_ok rt N" and "0 < total_rows" "i \<le> j"
  shows "row_progress rt i total_rows \<le> row_progress rt j total_rows"
proof -
  have "(of_int (int i * 100) :: rat) \<le> of_int (int j * 100)" using assms(3) by simp
  then have "(of_int (int i * 100) :: rat) / of_int (int total_rows)
             \<le> of_int (int j * 100) / of_int (int total_rows)"
    using assms(2) by (simp add: divide_right_mono)
  then show ?thesis
    unfolding row_progress_def int_truediv_def
    by (intro py_trunc_mono round_okD(1)[OF ok])
qed

lemma row_progress_range:
  assumes ok: "round_ok rt N" and "100 \<le> N" "0 < total_rows" "idx \<le> total_rows"
  shows "0 \<le> row_progress rt idx total_rows \<and> row_progress rt idx total_rows \<le> 100"
proof -
  let ?q = "(of_int (int idx * 100) :: rat) / of_int (int total_rows)"
  have t: "(0::rat) < of_nat total_rows" using assms(3) by simp
  have q0: "of_nat 0 \<le> ?q" using t by simp
  have "(of_nat idx :: rat) * 100 \<le> 100 * of_nat total_rows"
    using assms(4) by simp
  then have q1: "?q \<le> of_nat 100" using t by (simp add: pos_divide_le_eq)
  from round_between[OF ok _ assms(2) q0 q1]
  have r: "of_nat 0 \<le> rt_round rt ?q" "rt_round rt ?q \<le> of_nat 100" by simp_all
  have c: "py_trunc 0 = 0" "py_trunc 100 = 100" by (simp_all add: py_trunc_def)
  from py_trunc_mono[OF r(1)] py_trunc_mono[OF r(2)]
  show ?thesis unfolding row_progress_def int_truediv_def by (simp add: c)
qed

lemma rows_loop_progress:
  assumes ok: "round_ok rt N" and big: "100 \<le> N"
  shows "rows_loop rt env cb canc total_rows idx rows polls records = (recs, evs)
   \<Longrightarrow> idx + length rows = Suc total_rows \<Longrightarrow> 0 < idx
   \<Longrightarrow> sorted (progress_of evs)
       \<and> (\<forall>v \<in> set (progress_of evs). row_progress rt idx total_rows \<le> v \<and> v \<le> 100)
       \<and> (appended evs = [] \<longrightarrow> progress_of evs = [])"
proof (induction rows arbitrary: idx polls records recs evs)
  case Nil
  then show ?case by simp
next
  case (Cons row rows)
  show ?case
  proof (cases "is_cancelled_now canc polls")
    case True
    with Cons.prems show ?thesis by auto
  next
    case False
    let ?m = "merge_row rt row (detail_for env idx row)"
    obtain recs' evs' where r:
      "rows_loop rt env cb canc total_rows (Suc idx) rows (polled canc polls) (records @ [?m])
         = (recs', evs')"
      by (cases "rows_loop rt env cb canc total_rows (Suc idx) rows (polled canc polls)
                   (records @ [?m])") auto
    from Cons.prems(2) have n: "Suc idx + length rows = Suc total_rows" by simp
    from Cons.IH[OF r n] have ih: "sorted (progress_of evs')"
      "\<forall>v \<in> set (progress_of evs'). row_progress rt (Suc idx) total_rows \<le> v \<and> v \<le> 100"
      by auto
    from Cons.prems(2,3) have pos: "0 < total_rows" and le: "idx \<le> total_rows" by simp_all
    have step: "row_progress rt idx total_rows \<le> row_progress rt (Suc idx) total_rows"
      by (rule row_progress_mono[OF ok pos]) simp
    have rng: "row_progress rt idx total_rows \<le> 100"
      using row_progress_range[OF ok big pos le] by simp
    from Cons.prems(1) False r have e:
      "evs = poll_ev canc polls @ [Append ?m] @ report cb (row_progress rt idx total_rows) @ evs'"
      by (auto simp: Let_def)
    have lb: "\<forall>v \<in> set (progress_of evs'). row_progress rt idx total_rows \<le> v \<and> v \<le> 100"
      using ih(2) step by force
    show ?thesis unfolding e using ih(1) lb rng False
      by (auto simp: event_append)
  qed
qed

subsection \<open>The robot\<close>

lemma filas_loop_progress:
  "filas_loop rt cb canc filas st = (st', evs)
   \<Longrightarrow> sorted (progress_of evs)
       \<and> (\<forall>v \<in> set (progress_of evs). min (int (total_procesos st) + 1) 99 \<le> v \<and> v \<le> 99)
       \<and> (appended evs = [] \<longrightarrow> progress_of evs = [])"
proof (induction filas arbitrary: st st' evs)
  case Nil
  then show ?case by simp
next
  case (Cons x filas)
  obtain fila outcome where x: "x = (fila, outcome)" by (cases x)
  show ?case
  proof (cases "is_cancelled_now canc (rb_polls st)")
    case True
    with Cons.prems x show ?thesis by auto
  next
    case False
    let ?st1 = "st\<lparr>rb_polls := polled canc (rb_polls st)\<rparr>"
    show ?thesis
    proof (cases "case outcome of Inl e \<Rightarrow> None | Inr detalle \<Rightarrow> detalle")
      case None
      obtain s' evs' where r: "filas_loop rt cb canc filas ?st1 = (s', evs')"
        by (cases "filas_loop rt cb canc filas ?st1") auto
      from Cons.IH[OF r] have ih: "sorted (progress_of evs')"
        "\<forall>v \<in> set (progress_of evs'). min (int (total_procesos st) + 1) 99 \<le> v \<and> v \<le> 99"
        "appended evs' = [] \<longrightarrow> progress_of evs' = []" by auto
      from Cons.prems x False None r have e: "evs = poll_ev canc (rb_polls st) @ evs'"
        by (auto simp: Let_def)
      show ?thesis using ih False unfolding e by (simp add: event_append)
    next
      case (Some detalle)
      let ?r = "registro_de rt fila detalle"
      let ?st2 = "?st1\<lparr>registros := registros ?st1 @ [?r],
                        total_procesos := Suc (total_procesos ?st1)\<rparr>"
      obtain s' evs' where r: "filas_loop rt cb canc filas ?st2 = (s', evs')"
        by (cases "filas_loop rt cb canc filas ?st2") auto
      from Cons.IH[OF r] have ih: "sorted (progress_of evs')"
        "\<forall>v \<in> set (progress_of evs').
           min (int (Suc (total_procesos st)) + 1) 99 \<le> v \<and> v \<le> 99" by auto
      from Cons.prems x False Some r have e:
        "evs = poll_ev canc (rb_polls st) @ [Append ?r]
                 @ report cb (min (int (Suc (total_procesos st))) 99) @ evs'"
        by (auto simp: Let_def)
      have lb: "\<forall>v \<in> set (progress_of evs').
                  min (int (total_procesos st) + 1) 99 \<le> v \<and> v \<le> 99
                  \<and> min (int (Suc (total_procesos st))) 99 \<le> v"
        using ih(2) by force
      show ?thesis unfolding e using ih(1) lb False
        by (auto simp: event_append)
    qed
  qed
qed

lemma paginas_loop_one:
  "paginas_loop rt (Some 1) cb canc 1 (p # ps) st
   = (if p = [] then (st, []) else filas_loop rt cb canc p st)"
  by (simp add: over_max_def split: prod.splits)

subsection \<open>The gazette adapter\<close>

lemma clamp_pct_mono: "x \<le> y \<Longrightarrow> clamp_pct x \<le> clamp_pct y"
  by (simp add: clamp_pct_def)

lemma pct_of_frac_range: "0 \<le> pct_of_frac rt x \<and> pct_of_frac rt x \<le> 100"
  by (simp add: pct_of_frac_def clamp_pct_def)

lemma py_float_nat:
  assumes "round_ok rt N" "n \<le> N"
  shows "py_float rt (int n) = of_nat n"
  using round_okD(2)[OF assms] by (simp add: py_float_def)

lemma pct_of_frac_mono:
  assumes ok: "round_ok rt N" and big: "100 \<le> N" and le: "x \<le> y"
  shows "pct_of_frac rt x \<le> pct_of_frac rt y"
proof -
  have h: "py_float rt 100 = 100" using py_float_nat[OF ok big] by simp
  have "x * 100 \<le> y * 100" using le by simp
  then have "rt_round rt (x * 100) \<le> rt_round rt (y * 100)" by (rule round_okD(1)[OF ok])
  then show ?thesis
    unfolding pct_of_frac_def float_mul_int_def h
    by (intro clamp_pct_mono py_trunc_mono)
qed

lemma day_frac_mono:
  assumes ok: "round_ok rt N" and "0 < total_days" "d \<le> d'"
  shows "day_frac rt d total_days \<le> day_frac rt d' total_days"
proof -
  have "(of_int (int d) :: rat) / of_int total_days \<le> of_int (int d') / of_int total_days"
    using assms(2,3) by (simp add: divide_right_mono)
  then show ?thesis unfolding day_frac_def int_truediv_def by (rule round_okD(1)[OF ok])
qed

lemma aviso_frac_between:
  assumes ok: "round_ok rt N" and dN: "Suc d \<le> N" and tN: "nat total_days \<le> N"
    and t0: "0 < total_days" and n0: "0 < n_av" and i: "i \<le> n_av"
  shows "day_frac rt d total_days \<le> aviso_frac rt d i n_av total_days
       \<and> aviso_frac rt d i n_av total_days \<le> day_frac rt (Suc d) total_days"
proof -
  have one: "1 \<le> N" using dN by simp
  have fd: "py_float rt (int d) = of_nat d" using py_float_nat[OF ok] dN by simp
  have ft: "py_float rt total_days = of_int total_days"
    using py_float_nat[OF ok tN] t0 by simp
  let ?q = "int_truediv rt (int i) (int n_av)"
  have nr: "(0::rat) < of_nat n_av" using n0 by simp
  have q0: "(of_nat 0 :: rat) \<le> of_int (int i) / of_int (int n_av)" using nr by simp
  have q1: "(of_int (int i) :: rat) / of_int (int n_av) \<le> of_nat 1"
    using nr i by (simp add: pos_divide_le_eq)
  from round_between[OF ok _ one q0 q1]
  have q: "0 \<le> ?q" "?q \<le> 1" unfolding int_truediv_def by simp_all
  let ?A = "int_add_float rt (int d) ?q"
  have a0: "(of_nat d :: rat) \<le> of_nat d + ?q" using q(1) by simp
  have a1: "of_nat d + ?q \<le> (of_nat (Suc d) :: rat)" using q(2) by simp
  from round_between[OF ok _ dN a0 a1] dN
  have A: "of_nat d \<le> ?A" "?A \<le> of_nat (Suc d)"
    unfolding int_add_float_def fd by simp_all
  have tr: "(0::rat) < of_int total_days" using t0 by simp
  have l: "(of_int (int d) :: rat) / of_int total_days \<le> ?A / of_int total_days"
    using A(1) tr by (simp add: divide_right_mono)
  have u: "?A / of_int total_days \<le> (of_int (int (Suc d)) :: rat) / of_int total_days"
    using A(2) tr by (simp add: divide_right_mono)
  show ?thesis
    unfolding day_frac_def aviso_frac_def float_div_int_def int_truediv_def ft
    using round_okD(1)[OF ok l] round_okD(1)[OF ok u] by (simp add: int_truediv_def)
qed

lemma aviso_frac_mono:
  assumes ok: "round_ok rt N" and t0: "0 < total_days" and n0: "0 < n_av" and ij: "i \<le> j"
    and tN: "nat total_days \<le> N"
  shows "aviso_frac rt d i n_av total_days \<le> aviso_frac rt d j n_av total_days"
proof -
  have ft: "py_float rt total_days = of_int total_days"
    using py_float_nat[OF ok tN] t0 by simp
  have "(of_int (int i) :: rat) / of_int (int n_av) \<le> of_int (int j) / of_int (int n_av)"
    using ij n0 by (simp add: divide_right_mono)
  then have "int_truediv rt (int i) (int n_av) \<le> int_truediv rt (int j) (int n_av)"
    unfolding int_truediv_def by (rule round_okD(1)[OF ok])
  then have "py_float rt (int d) + int_truediv rt (int i) (int n_av)
             \<le> py_float rt (int d) + int_truediv rt (int j) (int n_av)" by simp
  then have "int_add_float rt (int d) (int_truediv rt (int i) (int n_av))
             \<le> int_add_float rt (int d) (int_truediv rt (int j) (int n_av))"
    unfolding int_add_float_def by (rule round_okD(1)[OF ok])
  then have "int_add_float rt (int d) (int_truediv rt (int i) (int n_av)) / of_int total_days
             \<le> int_add_float rt (int d) (int_truediv rt (int j) (int n_av)) / of_int total_days"
    using t0 by (simp add: divide_right_mono)
  then show ?thesis
    unfolding aviso_frac_def float_div_int_def ft by (rule round_okD(1)[OF ok])
qed

lemma avisos_loop_progress:
  assumes ok: "round_ok rt N" and big: "100 \<le> N" and dN: "Suc d \<le> N"
    and tN: "nat total_days \<le> N" and t0: "0 < total_days"
  shows "avisos_loop rt env cb canc total_days fecha d n_av idx avisos polls regs
           = (regs', polls', evs)
   \<Longrightarrow> idx + length avisos = Suc n_av \<Longrightarrow> 0 < idx
   \<Longrightarrow> sorted (progress_of evs)
       \<and> (\<forall>v \<in> set (progress_of evs).
             aviso_pct rt d idx n_av total_days \<le> v \<and> v \<le> day_pct rt (Suc d) total_days)"
proof (induction avisos arbitrary: idx polls regs regs' polls' evs)
  case Nil
  then show ?case by simp
next
  case (Cons aviso avisos)
  from Cons.prems(2,3) have n0: "0 < n_av" and le: "idx \<le> n_av" by simp_all
  from Cons.prems(2) have nx: "Suc idx + length avisos = Suc n_av" by simp
  have step: "aviso_pct rt d idx n_av total_days \<le> aviso_pct rt d (Suc idx) n_av total_days"
    unfolding aviso_pct_def
    by (intro pct_of_frac_mono[OF ok big] aviso_frac_mono[OF ok t0 n0 _ tN]) simp
  have top: "aviso_pct rt d idx n_av total_days \<le> day_pct rt (Suc d) total_days"
    unfolding aviso_pct_def day_pct_def
    using aviso_frac_between[OF ok dN tN t0 n0 le] by (intro pct_of_frac_mono[OF ok big]) simp
  show ?case
  proof (cases "is_cancelled_now canc polls")
    case True
    with Cons.prems(1) show ?thesis by auto
  next
    case False
    show ?thesis
    proof (cases "parse_aviso env fecha idx aviso")
      case (Inl exc)
      obtain r p es where rec:
        "avisos_loop rt env cb canc total_days fecha d n_av (Suc idx) avisos
           (polled canc polls) regs = (r, p, es)"
        using prod_cases3 by blast
      from Cons.IH[OF rec nx] have ih: "sorted (progress_of es)"
        "\<forall>v \<in> set (progress_of es).
           aviso_pct rt d (Suc idx) n_av total_days \<le> v \<and> v \<le> day_pct rt (Suc d) total_days"
        by auto
      from Cons.prems(1) False Inl rec have e: "evs = poll_ev canc polls @ es" by auto
      have "\<forall>v \<in> set (progress_of es).
           aviso_pct rt d idx n_av total_days \<le> v \<and> v \<le> day_pct rt (Suc d) total_days"
        using ih(2) step by force
      then show ?thesis using ih(1) unfolding e by (simp add: event_append)
    next
      case (Inr data)
      let ?d = "registro_aviso data aviso"
      obtain r p es where rec:
        "avisos_loop rt env cb canc total_days fecha d n_av (Suc idx) avisos
           (polled canc polls) (regs @ [?d]) = (r, p, es)"
        using prod_cases3 by blast
      from Cons.IH[OF rec nx] have ih: "sorted (progress_of es)"
        "\<forall>v \<in> set (progress_of es).
           aviso_pct rt d (Suc idx) n_av total_days \<le> v \<and> v \<le> day_pct rt (Suc d) total_days"
        by auto
      from Cons.prems(1) False Inr rec have e:
        "evs = poll_ev canc polls @ [Append ?d]
                 @ report cb (aviso_pct rt d idx n_av total_days) @ es" by auto
      have lb: "\<forall>v \<in> set (progress_of es).
           aviso_pct rt d idx n_av total_days \<le> v \<and> v \<le> day_pct rt (Suc d) total_days"
        using ih(2) step by force
      show ?thesis using ih(1) lb top unfolding e by (auto simp: event_append)
    qed
  qed
qed

lemma sorted_append_bound:
  fixes m :: int
  assumes "sorted xs" "sorted ys" "\<forall>x \<in> set xs. x \<le> m" "\<forall>y \<in> set ys. m \<le> y"
  shows "sorted (xs @ ys)"
  using assms by (fastforce simp: sorted_append)

lemma dias_loop_progress:
  "round_ok rt N \<Longrightarrow> 100 \<le> N \<Longrightarrow> nat total_days \<le> N \<Longrightarrow> 0 < total_days
   \<Longrightarrow> dias_loop rt env cb canc total_days end_date fecha day_index polls regs
         = (exc, regs', evs)
   \<Longrightarrow> int day_index + (end_date + 1 - fecha) \<le> int N
   \<Longrightarrow> sorted (progress_of evs)
       \<and> (\<forall>v \<in> set (progress_of evs). day_pct rt day_index total_days \<le> v)"
proof (induction rt env cb canc total_days end_date fecha day_index polls regs
       arbitrary: exc regs' evs rule: dias_loop.induct)
  case (1 rt env cb canc total_days end_date fecha day_index polls regs)
  note run = "1.prems"(5) and inv = "1.prems"(6)
  note ok = "1.prems"(1) and big = "1.prems"(2) and tN = "1.prems"(3) and t0 = "1.prems"(4)
  show ?case
  proof (cases "fecha \<le> end_date")
    case False
    with run show ?thesis by (simp add: dias_loop.simps)
  next
    case inrange: True
    with inv have dN: "Suc day_index \<le> N" by linarith
    from inv have inv': "int (Suc day_index) + (end_date + 1 - (fecha + 1)) \<le> int N" by simp
    have next_day: "day_pct rt day_index total_days \<le> day_pct rt (Suc day_index) total_days"
      unfolding day_pct_def
      by (intro pct_of_frac_mono[OF ok big] day_frac_mono[OF ok t0]) simp
    show ?thesis
    proof (cases "is_cancelled_now canc polls")
      case True
      with run inrange have "evs = poll_ev canc polls" by (simp add: dias_loop.simps)
      then show ?thesis by simp
    next
      case nc: False
      show ?thesis
      proof (cases "get_listado_avisos env fecha = []")
        case True
        obtain es where e:
          "evs = poll_ev canc polls @ report cb (day_pct rt (Suc day_index) total_days) @ es"
          and ih: "sorted (progress_of es)
                  \<and> (\<forall>v \<in> set (progress_of es). day_pct rt (Suc day_index) total_days \<le> v)"
        proof (cases "date_max \<le> fecha")
          case last: True
          from run inrange nc True last have
            "evs = poll_ev canc polls @ report cb (day_pct rt (Suc day_index) total_days) @ []"
            by (simp add: dias_loop.simps)
          then show ?thesis using that[of "[]"] by simp
        next
          case more: False
          obtain x r es where rec:
            "dias_loop rt env cb canc total_days end_date (fecha + 1) (Suc day_index)
               (polled canc polls) regs = (x, r, es)"
            using prod_cases3 by blast
          have "sorted (progress_of es)
                  \<and> (\<forall>v \<in> set (progress_of es). day_pct rt (Suc day_index) total_days \<le> v)"
            using "1.IH"(1)[OF _ nc True more ok big tN t0 rec inv'] inrange by simp
          moreover from run inrange nc True more rec have
            "evs = poll_ev canc polls @ report cb (day_pct rt (Suc day_index) total_days) @ es"
            by (simp add: dias_loop.simps)
          ultimately show ?thesis using that by blast
        qed
        have "\<forall>v \<in> set (progress_of es). day_pct rt day_index total_days \<le> v"
          using ih next_day by force
        then show ?thesis using ih next_day unfolding e by (auto simp: event_append)
      next
        case avs: False
        let ?avisos = "get_listado_avisos env fecha"
        obtain r1 p1 es1 where inner:
          "avisos_loop rt env cb canc total_days fecha day_index (length ?avisos) 1 ?avisos
             (polled canc polls) regs = (r1, p1, es1)"
          using prod_cases3 by blast
        have "sorted (progress_of es1)
              \<and> (\<forall>v \<in> set (progress_of es1).
                    aviso_pct rt day_index 1 (length ?avisos) total_days \<le> v
                    \<and> v \<le> day_pct rt (Suc day_index) total_days)"
          by (rule avisos_loop_progress[OF ok big dN tN t0 inner]) simp_all
        moreover have "day_pct rt day_index total_days
                       \<le> aviso_pct rt day_index 1 (length ?avisos) total_days"
          unfolding aviso_pct_def day_pct_def
          using aviso_frac_between[OF ok dN tN t0, of "length ?avisos" 1] avs
          by (intro pct_of_frac_mono[OF ok big]) (simp add: Suc_leI)
        ultimately have t1: "sorted (progress_of es1)"
          "\<forall>v \<in> set (progress_of es1). day_pct rt day_index total_days \<le> v"
          "\<forall>v \<in> set (progress_of es1). v \<le> day_pct rt (Suc day_index) total_days"
          by force+
        show ?thesis
        proof (cases "is_cancelled_now canc p1")
          case True
          from run inrange nc avs inner True have e:
            "evs = poll_ev canc polls @ es1 @ poll_ev canc p1"
            by (simp add: dias_loop.simps)
          show ?thesis using t1 unfolding e by (simp add: event_append)
        next
          case go: False
          obtain es where e: "evs = poll_ev canc polls @ es1 @ poll_ev canc p1 @ es"
            and ih: "sorted (progress_of es)
                  \<and> (\<forall>v \<in> set (progress_of es). day_pct rt (Suc day_index) total_days \<le> v)"
          proof (cases "date_max \<le> fecha")
            case last: True
            from run inrange nc avs inner go last have
              "evs = poll_ev canc polls @ es1 @ poll_ev canc p1 @ []"
              by (simp add: dias_loop.simps)
            then show ?thesis using that[of "[]"] by simp
          next
            case more: False
            obtain x r es where rec:
              "dias_loop rt env cb canc total_days end_date (fecha + 1) (Suc day_index)
                 (polled canc p1) r1 = (x, r, es)"
              using prod_cases3 by blast
            have "sorted (progress_of es)
                  \<and> (\<forall>v \<in> set (progress_of es). day_pct rt (Suc day_index) total_days \<le> v)"
              using "1.IH"(2)[OF _ nc avs inner[symmetric] refl go more ok big tN t0 rec inv']
                inrange
              by simp
            moreover from run inrange nc avs inner go more rec have
              "evs = poll_ev canc polls @ es1 @ poll_ev canc p1 @ es"
              by (simp add: dias_loop.simps)
            ultimately show ?thesis using that by blast
          qed
          have s: "sorted (progress_of es1 @ progress_of es)"
            using t1(1,3) ih by (intro sorted_append_bound) auto
          have "\<forall>v \<in> set (progress_of es). day_pct rt day_index total_days \<le> v"
            using ih next_day by force
          then show ?thesis using s t1(2) unfolding e by (auto simp: event_append)
        qed
      qed
    qed
  qed
qed

lemma avisos_loop_range:
  "avisos_loop rt env cb canc total_days fecha d n_av idx avisos polls regs
     = (regs', polls', evs)
   \<Longrightarrow> \<forall>v \<in> set (progress_of evs). 0 \<le> v \<and> v \<le> 100"
proof (induction avisos arbitrary: idx polls regs regs' polls' evs)
  case Nil
  then show ?case by simp
next
  case (Cons aviso avisos)
  have rng: "0 \<le> aviso_pct rt d idx n_av total_days \<and> aviso_pct rt d idx n_av total_days \<le> 100"
    unfolding aviso_pct_def by (rule pct_of_frac_range)
  show ?case
  proof (cases "is_cancelled_now canc polls")
    case True
    with Cons.prems show ?thesis by auto
  next
    case False
    obtain r p es where rec:
      "avisos_loop rt env cb canc total_days fecha d n_av (Suc idx) avisos (polled canc polls)
         (case parse_aviso env fecha idx aviso of
            Inl e \<Rightarrow> regs | Inr data \<Rightarrow> regs @ [registro_aviso data aviso]) = (r, p, es)"
      using prod_cases3 by blast
    from Cons.IH[OF rec] have ih: "\<forall>v \<in> set (progress_of es). 0 \<le> v \<and> v \<le> 100" .
    from Cons.prems False rec have "set (progress_of evs)
        \<subseteq> insert (aviso_pct rt d idx n_av total_days) (set (progress_of es))"
      by (auto simp: event_append split: sum.splits if_splits)
    with ih rng show ?thesis by blast
  qed
qed

lemma dias_loop_range:
  "dias_loop rt env cb canc total_days end_date fecha day_index polls regs = (exc, regs', evs)
   \<Longrightarrow> \<forall>v \<in> set (progress_of evs). 0 \<le> v \<and> v \<le> 100"
proof (induction rt env cb canc total_days end_date fecha day_index polls regs
       arbitrary: exc regs' evs rule: dias_loop.induct)
  case (1 rt env cb canc total_days end_date fecha day_index polls regs)
  note run = "1.prems"
  have rng: "0 \<le> day_pct rt (Suc day_index) total_days
             \<and> day_pct rt (Suc day_index) total_days \<le> 100"
    unfolding day_pct_def by (rule pct_of_frac_range)
  show ?case
  proof (cases "fecha \<le> end_date \<and> \<not> is_cancelled_now canc polls")
    case False
    with run show ?thesis by (auto simp: dias_loop.simps split: if_splits)
  next
    case True
    then have inrange: "fecha \<le> end_date" and nc: "\<not> is_cancelled_now canc polls" by simp_all
    show ?thesis
    proof (cases "get_listado_avisos env fecha = []")
      case empty: True
      obtain es where e:
        "evs = poll_ev canc polls @ report cb (day_pct rt (Suc day_index) total_days) @ es"
        and ih: "\<forall>v \<in> set (progress_of es). 0 \<le> v \<and> v \<le> 100"
      proof (cases "date_max \<le> fecha")
        case last: True
        from run inrange nc empty last have
          "evs = poll_ev canc polls @ report cb (day_pct rt (Suc day_index) total_days) @ []"
          by (simp add: dias_loop.simps)
        then show ?thesis using that[of "[]"] by simp
      next
        case more: False
        obtain x r es where rec:
          "dias_loop rt env cb canc total_days end_date (fecha + 1) (Suc day_index)
             (polled canc polls) regs = (x, r, es)"
          using prod_cases3 by blast
        have "\<forall>v \<in> set (progress_of es). 0 \<le> v \<and> v \<le> 100"
          using "1.IH"(1)[OF _ nc empty more rec] inrange by simp
        moreover from run inrange nc empty more rec have
          "evs = poll_ev canc polls @ report cb (day_pct rt (Suc day_index) total_days) @ es"
          by (simp add: dias_loop.simps)
        ultimately show ?thesis using that by blast
      qed
      show ?thesis using ih rng unfolding e by (auto simp: event_append)
    next
      case avs: False
      obtain r1 p1 es1 where inner:
        "avisos_loop rt env cb canc total_days fecha day_index
           (length (get_listado_avisos env fecha)) 1 (get_listado_avisos env fecha)
           (polled canc polls) regs = (r1, p1, es1)"
        using prod_cases3 by blast
      note t1 = avisos_loop_range[OF inner]
      show ?thesis
      proof (cases "is_cancelled_now canc p1")
        case True
        from run inrange nc avs inner True have e:
          "evs = poll_ev canc polls @ es1 @ poll_ev canc p1"
          by (simp add: dias_loop.simps)
        show ?thesis using t1 unfolding e by (simp add: event_append)
      next
        case go: False
        obtain es where e: "evs = poll_ev canc polls @ es1 @ poll_ev canc p1 @ es"
          and ih: "\<forall>v \<in> set (progress_of es). 0 \<le> v \<and> v \<le> 100"
        proof (cases "date_max \<le> fecha")
          case last: True
          from run inrange nc avs inner go last have
            "evs = poll_ev canc polls @ es1 @ poll_ev canc p1 @ []"
            by (simp add: dias_loop.simps)
          then show ?thesis using that[of "[]"] by simp
        next
          case more: False
          obtain x r es where rec:
            "dias_loop rt env cb canc total_days end_date (fecha + 1) (Suc day_index)
               (polled canc p1) r1 = (x, r, es)"
            using prod_cases3 by blast
          have "\<forall>v \<in> set (progress_of es). 0 \<le> v \<and> v \<le> 100"
            using "1.IH"(2)[OF _ nc avs inner[symmetric] refl go more rec] inrange by simp
          moreover from run inrange nc avs inner go more rec have
            "evs = poll_ev canc polls @ es1 @ poll_ev canc p1 @ es"
            by (simp add: dias_loop.simps)
          ultimately show ?thesis using that by blast
        qed
        show ?thesis using t1 ih unfolding e by (auto simp: event_append)
      qed
    qed
  qed
qed

lemma avisos_loop_no_append:
  "avisos_loop rt env cb canc total_days fecha d n_av idx avisos polls regs
     = (regs', polls', evs)
   \<Longrightarrow> appended evs = [] \<Longrightarrow> progress_of evs = []"
proof (induction avisos arbitrary: idx polls regs regs' polls' evs)
  case Nil
  then show ?case by simp
next
  case (Cons aviso avisos)
  show ?case
  proof (cases "is_cancelled_now canc polls")
    case True
    with Cons.prems(1) show ?thesis by auto
  next
    case False
    show ?thesis
    proof (cases "parse_aviso env fecha idx aviso")
      case (Inl e)
      obtain r p es where rec:
        "avisos_loop rt env cb canc total_days fecha d n_av (Suc idx) avisos
           (polled canc polls) regs = (r, p, es)"
        using prod_cases3 by blast
      from Cons.prems(1) False Inl rec have e: "evs = poll_ev canc polls @ es" by auto
      with Cons.prems(2) have "appended es = []" by (simp add: event_append)
      from Cons.IH[OF rec this] show ?thesis unfolding e by (simp add: event_append)
    next
      case (Inr data)
      obtain r p es where rec:
        "avisos_loop rt env cb canc total_days fecha d n_av (Suc idx) avisos
           (polled canc polls) (regs @ [registro_aviso data aviso]) = (r, p, es)"
        using prod_cases3 by blast
      from Cons.prems(1) False Inr rec have
        "evs = poll_ev canc polls @ [Append (registro_aviso data aviso)]
                 @ report cb (aviso_pct rt d idx n_av total_days) @ es" by auto
      with Cons.prems(2) show ?thesis by (simp add: event_append)
    qed
  qed
qed

lemma upt_head: "[Suc d ..< Suc (d + Suc n)] = Suc d # [Suc (Suc d) ..< Suc (Suc d + n)]"
  by (simp del: upt_Suc add: upt_conv_Cons)

text \<open>
  A run of the day loop that appends nothing reports exactly the percentages of the days
  without notices among the days it gets through, all of them when it is not cancelled.
\<close>

lemma dias_loop_sin_registros:
  "dias_loop rt env cb canc total_days end_date fecha day_index polls regs = (exc, regs', evs)
   \<Longrightarrow> appended evs = [] \<Longrightarrow> fecha = start_date + int day_index
   \<Longrightarrow> \<exists>n. n \<le> nat (end_date + 1 - fecha)
         \<and> progress_of evs
             = (if cb then
                  map (\<lambda>k. day_pct rt k total_days)
                    (filter (\<lambda>k. get_listado_avisos env (start_date + int k - 1) = [])
                       [Suc day_index ..< Suc (day_index + n)])
                else [])
         \<and> ((\<forall>p. \<not> is_cancelled_now canc p) \<and> end_date \<le> date_max
               \<longrightarrow> n = nat (end_date + 1 - fecha))"
proof (induction rt env cb canc total_days end_date fecha day_index polls regs
       arbitrary: exc regs' evs rule: dias_loop.induct)
  case (1 rt env cb canc total_days end_date fecha day_index polls regs)
  note run = "1.prems"(1) and noapp = "1.prems"(2) and pos = "1.prems"(3)
  let ?P = "\<lambda>k. get_listado_avisos env (start_date + int k - 1) = []"
  let ?f = "\<lambda>k. day_pct rt k total_days"
  have here: "?P (Suc day_index) \<longleftrightarrow> get_listado_avisos env fecha = []" using pos by simp
  have pos': "fecha + 1 = start_date + int (Suc day_index)" using pos by simp
  have one: "[Suc day_index ..< Suc (day_index + 1)] = [Suc day_index]" by simp
  show ?case
  proof (cases "fecha \<le> end_date")
    case False
    with run have "evs = []" by (simp add: dias_loop.simps)
    with False show ?thesis by (intro exI[of _ 0]) simp
  next
    case inrange: True
    then have step: "nat (end_date + 1 - fecha) = Suc (nat (end_date + 1 - (fecha + 1)))"
      by simp
    show ?thesis
    proof (cases "is_cancelled_now canc polls")
      case True
      with run inrange have "evs = poll_ev canc polls" by (simp add: dias_loop.simps)
      with True show ?thesis by (intro exI[of _ 0]) auto
    next
      case nc: False
      show ?thesis
      proof (cases "get_listado_avisos env fecha = []")
        case empty: True
        show ?thesis
        proof (cases "date_max \<le> fecha")
          case last: True
          from run inrange nc empty last have e:
            "evs = poll_ev canc polls @ report cb (day_pct rt (Suc day_index) total_days)"
            by (simp add: dias_loop.simps)
          have a: "(1::nat) \<le> nat (end_date + 1 - fecha)" using inrange by simp
          have b: "end_date \<le> date_max \<longrightarrow> 1 = nat (end_date + 1 - fecha)"
            using last inrange by auto
          have c: "progress_of evs = (if cb then map ?f (filter ?P [Suc day_index]) else [])"
            unfolding e using here empty by (simp add: event_append)
          from a b c show ?thesis by (intro exI[of _ 1]) (simp only: one, blast)
        next
          case more: False
          obtain x r es where rec:
            "dias_loop rt env cb canc total_days end_date (fecha + 1) (Suc day_index)
               (polled canc polls) regs = (x, r, es)"
            using prod_cases3 by blast
          from run inrange nc empty more rec have e:
            "evs = poll_ev canc polls @ report cb (day_pct rt (Suc day_index) total_days) @ es"
            by (simp add: dias_loop.simps)
          with noapp have na: "appended es = []" by (simp add: event_append)
          from "1.IH"(1)[OF _ nc empty more rec na pos'] inrange
          obtain n where n: "n \<le> nat (end_date + 1 - (fecha + 1))"
            "progress_of es
               = (if cb then map ?f (filter ?P [Suc (Suc day_index) ..< Suc (Suc day_index + n)])
                  else [])"
            "(\<forall>p. \<not> is_cancelled_now canc p) \<and> end_date \<le> date_max
               \<longrightarrow> n = nat (end_date + 1 - (fecha + 1))"
            by blast
          have a: "Suc n \<le> nat (end_date + 1 - fecha)" using n(1) step by simp
          have b: "(\<forall>p. \<not> is_cancelled_now canc p) \<and> end_date \<le> date_max
                     \<longrightarrow> Suc n = nat (end_date + 1 - fecha)"
            using n(3) step by simp
          have c: "progress_of evs
                   = (if cb then map ?f (filter ?P [Suc day_index ..< Suc (day_index + Suc n)])
                      else [])"
            unfolding e upt_head using here empty n(2) by (simp add: event_append)
          from a b c show ?thesis by (intro exI[of _ "Suc n"]) blast
        qed
      next
        case avs: False
        obtain r1 p1 es1 where inner:
          "avisos_loop rt env cb canc total_days fecha day_index
             (length (get_listado_avisos env fecha)) 1 (get_listado_avisos env fecha)
             (polled canc polls) regs = (r1, p1, es1)"
          using prod_cases3 by blast
        show ?thesis
        proof (cases "is_cancelled_now canc p1")
          case True
          from run inrange nc avs inner True have e:
            "evs = poll_ev canc polls @ es1 @ poll_ev canc p1"
            by (simp add: dias_loop.simps)
          with noapp have "appended es1 = []" by (simp add: event_append)
          from avisos_loop_no_append[OF inner this] have "progress_of evs = []"
            unfolding e by (simp add: event_append)
          with True show ?thesis by (intro exI[of _ 0]) auto
        next
          case go: False
          show ?thesis
          proof (cases "date_max \<le> fecha")
            case last: True
            from run inrange nc avs inner go last have e:
              "evs = poll_ev canc polls @ es1 @ poll_ev canc p1"
              by (simp add: dias_loop.simps)
            with noapp have "appended es1 = []" by (simp add: event_append)
            from avisos_loop_no_append[OF inner this] have p0: "progress_of evs = []"
              unfolding e by (simp add: event_append)
            have a: "(1::nat) \<le> nat (end_date + 1 - fecha)" using inrange by simp
            have b: "end_date \<le> date_max \<longrightarrow> 1 = nat (end_date + 1 - fecha)"
              using last inrange by auto
            have c: "progress_of evs = (if cb then map ?f (filter ?P [Suc day_index]) else [])"
              using p0 here avs by simp
            from a b c show ?thesis by (intro exI[of _ 1]) (simp only: one, blast)
          next
            case more: False
            obtain x r es where rec:
              "dias_loop rt env cb canc total_days end_date (fecha + 1) (Suc day_index)
                 (polled canc p1) r1 = (x, r, es)"
              using prod_cases3 by blast
            from run inrange nc avs inner go more rec have e:
              "evs = poll_ev canc polls @ es1 @ poll_ev canc p1 @ es"
              by (simp add: dias_loop.simps)
            with noapp have na1: "appended es1 = []" and na: "appended es = []"
              by (simp_all add: event_append)
            note p1 = avisos_loop_no_append[OF inner na1]
            from "1.IH"(2)[OF _ nc avs inner[symmetric] refl go more rec na pos'] inrange
            obtain n where n: "n \<le> nat (end_date + 1 - (fecha + 1))"
              "progress_of es
                 = (if cb then
                      map ?f (filter ?P [Suc (Suc day_index) ..< Suc (Suc day_index + n)])
                    else [])"
              "(\<forall>p. \<not> is_cancelled_now canc p) \<and> end_date \<le> date_max
                 \<longrightarrow> n = nat (end_date + 1 - (fecha + 1))"
              by blast
            have a: "Suc n \<le> nat (end_date + 1 - fecha)" using n(1) step by simp
            have b: "(\<forall>p. \<not> is_cancelled_now canc p) \<and> end_date \<le> date_max
                       \<longrightarrow> Suc n = nat (end_date + 1 - fecha)"
              using n(3) step by simp
            have c: "progress_of evs
                     = (if cb then
                          map ?f (filter ?P [Suc day_index ..< Suc (day_index + Suc n)])
                        else [])"
              unfolding e upt_head using here avs n(2) p1 by (simp add: event_append)
            from a b c show ?thesis by (intro exI[of _ "Suc n"]) blast
          qed
        qed
      qed
    qed
  qed
qed

section \<open>Runs without cancellation, and the progress of runs\<close>

lemma comprar_run_shape:
  assumes "iter_compras_pages env None = Inr soups" and "rows = concat (map list_rows soups)"
  shows "scrape_comprar_tics rt env start_date end_date output_dir cb canc
    = (if rows = [] then
         \<lparr> run_result = Inr 0, run_records = [], run_events = report cb 100 \<rparr>
       else
         (case rows_loop rt env cb canc (length rows) 1 rows 0 [] of
            (records, evs) \<Rightarrow>
              if records = [] then
                \<lparr> run_result = Inr 0, run_records = records,
                  run_events = evs @ report cb 100 \<rparr>
              else
                \<lparr> run_result = Inr (length records), run_records = records,
                  run_events = evs
                    @ [Write output_dir (comprar_filename rt start_date end_date)
                         comprar_columns (map comprar_cells records)]
                    @ report cb 100 \<rparr>))"
proof -
  have "scrape_comprar_tics rt env start_date end_date output_dir cb canc
    = (if length rows = 0 then
         \<lparr> run_result = Inr 0, run_records = [], run_events = report cb 100 \<rparr>
       else
         (case rows_loop rt env cb canc (length rows) 1 rows 0 [] of
            (records, evs) \<Rightarrow>
              if records = [] then
                \<lparr> run_result = Inr 0, run_records = records,
                  run_events = evs @ report cb 100 \<rparr>
              else
                \<lparr> run_result = Inr (length records), run_records = records,
                  run_events = evs
                    @ [Write output_dir (comprar_filename rt start_date end_date)
                         comprar_columns (map comprar_cells records)]
                    @ report cb 100 \<rparr>))"
    unfolding scrape_comprar_tics_def Let_def assms(2)
    by (simp only: assms(1) sum.case)
  then show ?thesis by simp
qed

lemma robot_run_shape:
  "scrape_comprar_tics_robot rt (Inr (p # ps)) start_date end_date output_dir cb canc
    = (case (if p = [] then
               (\<lparr> registros = [], total_procesos = 0, rb_polls = 0, returned = False \<rparr>, [])
             else filas_loop rt cb canc p
               \<lparr> registros = [], total_procesos = 0, rb_polls = 0, returned = False \<rparr>) of
         (st, evs) \<Rightarrow>
           if registros st = [] then
             \<lparr> run_result = Inr 0, run_records = registros st,
               run_events = evs @ report cb 100 \<rparr>
           else
             \<lparr> run_result = Inr (length (registros st)), run_records = registros st,
               run_events = evs
                 @ [Write output_dir (robot_filename rt start_date end_date)
                      robot_columns (map robot_cells (registros st))]
                 @ report cb 100 \<rparr>)"
  unfolding scrape_comprar_tics_robot_def ejecutar_robot_def
  by (simp only: paginas_loop_one sum.case) (simp split: prod.splits)


lemma merged_from_length [simp]: "length (merged_from rt env idx rows) = length rows"
  by (induction rows arbitrary: idx) simp_all






lemma py_or_None [simp]: "py_or None b = b"
  by (simp add: py_or_def truthy_def)









lemma comprar_run_progress:
  assumes ok: "round_ok rt N" and big: "100 \<le> N"
    and r: "r = scrape_comprar_tics rt env start_date end_date output_dir cb canc"
  shows "progress_ok (progress_of (run_events r))
    \<and> (run_records r = []
         \<longrightarrow> progress_of (run_events r) = (if cb \<and> \<not> isl (run_result r) then [100] else []))"
proof (cases "iter_compras_pages env None")
  case (Inl e)
  then show ?thesis by (simp add: r scrape_comprar_tics_def progress_ok_def)
next
  case (Inr soups)
  define rows where "rows = concat (map list_rows soups)"
  note shape = comprar_run_shape[OF Inr rows_def, of rt start_date end_date output_dir cb canc]
  show ?thesis
  proof (cases "rows = []")
    case True
    with shape r show ?thesis by (simp add: progress_ok_def)
  next
    case False
    obtain recs evs where l: "rows_loop rt env cb canc (length rows) 1 rows 0 [] = (recs, evs)"
      by (cases "rows_loop rt env cb canc (length rows) 1 rows 0 []") auto
    from False have pos: "0 < length rows" by simp
    from rows_loop_progress[OF ok big l] have p: "sorted (progress_of evs)"
      "\<forall>v \<in> set (progress_of evs). row_progress rt 1 (length rows) \<le> v \<and> v \<le> 100"
      "appended evs = [] \<longrightarrow> progress_of evs = []" by simp_all
    from row_progress_range[OF ok big pos, of 1] pos
    have "0 \<le> row_progress rt 1 (length rows)" by simp
    with p(2) have rng: "\<forall>v \<in> set (progress_of evs). 0 \<le> v \<and> v \<le> 100" by force
    from rows_loop_trace[OF l] have ap: "recs = appended evs" by simp
    have pe: "progress_of (run_events r) = progress_of evs @ (if cb then [100] else [])"
      "run_records r = recs" "\<not> isl (run_result r)"
      using shape r False l by (auto simp: event_append)
    have "sorted (progress_of evs @ (if cb then [100] else []))"
      using p(1) rng by (auto simp: sorted_append)
    then have "progress_ok (progress_of (run_events r))"
      using rng unfolding pe(1) progress_ok_def by auto
    moreover have "run_records r = []
         \<longrightarrow> progress_of (run_events r) = (if cb \<and> \<not> isl (run_result r) then [100] else [])"
      using pe p(3) ap by simp
    ultimately show ?thesis by simp
  qed
qed

lemma robot_run_progress:
  assumes r: "r = scrape_comprar_tics_robot rt env start_date end_date output_dir cb canc"
  shows "progress_ok (progress_of (run_events r))
    \<and> (run_records r = []
         \<longrightarrow> progress_of (run_events r) = (if cb \<and> \<not> isl (run_result r) then [100] else []))"
proof -
  let ?st0 = "\<lparr> registros = [], total_procesos = 0, rb_polls = 0, returned = False \<rparr>"
  consider e where "env = Inl e" | "env = Inr []" | p ps where "env = Inr (p # ps)"
    by (cases env; cases "projr env") auto
  then show ?thesis
  proof cases
    case 1
    then show ?thesis
      by (simp add: r scrape_comprar_tics_robot_def ejecutar_robot_def progress_ok_def)
  next
    case 2
    then show ?thesis
      by (simp add: r scrape_comprar_tics_robot_def ejecutar_robot_def progress_ok_def)
  next
    case 3
    obtain st evs where f:
      "(if p = [] then (?st0, []) else filas_loop rt cb canc p ?st0) = (st, evs)"
      by (cases "if p = [] then (?st0, []) else filas_loop rt cb canc p ?st0") auto
    have t: "registros st = appended evs \<and> sorted (progress_of evs)
             \<and> (\<forall>v \<in> set (progress_of evs). 0 \<le> v \<and> v \<le> 100)
             \<and> (appended evs = [] \<longrightarrow> progress_of evs = [])"
    proof (cases "p = []")
      case True
      with f show ?thesis by auto
    next
      case False
      with f have l: "filas_loop rt cb canc p ?st0 = (st, evs)" by simp
      from filas_loop_progress[OF l] have "sorted (progress_of evs)"
        "\<forall>v \<in> set (progress_of evs). 0 \<le> v \<and> v \<le> 100"
        "appended evs = [] \<longrightarrow> progress_of evs = []" by force+
      with filas_loop_trace[OF l] show ?thesis by simp
    qed
    have pe: "progress_of (run_events r) = progress_of evs @ (if cb then [100] else [])"
      "run_records r = registros st" "\<not> isl (run_result r)"
      unfolding r 3 robot_run_shape f by (auto simp: event_append)
    have "sorted (progress_of evs @ (if cb then [100] else []))"
      using t by (auto simp: sorted_append)
    then have "progress_ok (progress_of (run_events r))"
      using t unfolding pe(1) progress_ok_def by auto
    moreover have "run_records r = []
         \<longrightarrow> progress_of (run_events r) = (if cb \<and> \<not> isl (run_result r) then [100] else [])"
      using pe t by simp
    ultimately show ?thesis by simp
  qed
qed

lemma boletin_run_progress:
  assumes ok: "round_ok rt N" and big: "100 \<le> N" and days: "nat (end_date - start_date + 1) \<le> N"
    and r: "r = scrape_boletin_tercera rt env start_date end_date output_dir cb canc"
  shows "progress_ok (progress_of (run_events r))"
proof (cases "end_date < start_date")
  case True
  then show ?thesis by (simp add: r scrape_boletin_tercera_def progress_ok_def)
next
  case False
  let ?td = "end_date - start_date + 1"
  have t0: "0 < ?td" using False by simp
  obtain x regs evs where l:
    "dias_loop rt env cb canc ?td end_date start_date 0 0 [] = (x, regs, evs)"
    using prod_cases3 by blast
  have inv: "int 0 + (end_date + 1 - start_date) \<le> int N" using days t0 by linarith
  from dias_loop_progress[OF ok big days t0 l inv] have s: "sorted (progress_of evs)" by simp
  note rng = dias_loop_range[OF l]
  have "progress_of (run_events r) = progress_of evs"
    using False t0 l
    by (simp add: r scrape_boletin_tercera_def Let_def event_append split: option.splits)
  with s rng show ?thesis by (simp add: progress_ok_def)
qed

lemma boletin_run_sin_registros:
  assumes r: "r = scrape_boletin_tercera rt env start_date end_date output_dir cb canc"
    and range: "start_date \<le> end_date" and none: "run_records r = []"
  shows "\<exists>n\<le>nat (end_date - start_date + 1).
           progress_of (run_events r)
             = (if cb then
                  map (\<lambda>k. day_pct rt k (end_date - start_date + 1))
                    (dias_sin_avisos env start_date n)
                else [])
           \<and> ((\<forall>p. \<not> is_cancelled_now canc p) \<and> end_date \<le> date_max
                 \<longrightarrow> n = nat (end_date - start_date + 1))"
proof -
  let ?td = "end_date - start_date + 1"
  have t0: "0 < ?td" using range by simp
  obtain x regs evs where l:
    "dias_loop rt env cb canc ?td end_date start_date 0 0 [] = (x, regs, evs)"
    using prod_cases3 by blast
  have rr: "run_records r = regs"
    using range t0 l
    by (simp add: r scrape_boletin_tercera_def Let_def split: option.splits)
  with none have e: "regs = []" by simp
  have ev: "run_events r = evs"
    using range t0 l e
    by (simp add: r scrape_boletin_tercera_def Let_def split: option.splits)
  from dias_loop_trace[OF l] e have na: "appended evs = []" by simp
  have pos: "start_date = start_date + int 0" by simp
  from dias_loop_sin_registros[OF l na pos]
  obtain n where n: "n \<le> nat (end_date + 1 - start_date)"
    "progress_of evs
       = (if cb then
            map (\<lambda>k. day_pct rt k ?td)
              (filter (\<lambda>k. get_listado_avisos env (start_date + int k - 1) = [])
                 [Suc 0 ..< Suc (0 + n)])
          else [])"
    "(\<forall>p. \<not> is_cancelled_now canc p) \<and> end_date \<le> date_max
       \<longrightarrow> n = nat (end_date + 1 - start_date)"
    by blast
  have eq: "nat (end_date + 1 - start_date) = nat ?td" by simp
  have li: "[Suc 0 ..< Suc (0 + n)] = [1 ..< Suc n]" by simp
  from n(1) have a: "n \<le> nat ?td" unfolding eq .
  from n(3) have b: "(\<forall>p. \<not> is_cancelled_now canc p) \<and> end_date \<le> date_max
       \<longrightarrow> n = nat ?td" unfolding eq .
  from n(2) have c: "progress_of (run_events r)
             = (if cb then map (\<lambda>k. day_pct rt k ?td) (dias_sin_avisos env start_date n)
                else [])"
    unfolding ev li dias_sin_avisos_def .
  from a b c show ?thesis by (intro exI[of _ n]) blast
qed

text \<open>
  C2, as the code has it.  Whenever rounding to a double is monotone and the naturals up to
  100 and up to the number of days of the range are doubles, the integers each of the three
  adapters passes to \<open>progress_callback\<close> are non-decreasing and lie in [0, 100], whatever
  the pages and the cancel predicate do.  A run of either COMPR.AR adapter that ends without
  records reports 100 once when it returns with a callback, and nothing otherwise.  A run of
  the gazette adapter that ends without records has no closing report: with a callback it
  reports, for each day without notices among the days it got through, the percentage
  \<open>min(100, max(0, int(k / total_days * 100)))\<close> of the day's position \<open>k\<close> in the range, in
  order, and nothing for a day whose notices all failed; it gets through all the days of the
  range when it is not cancelled.
\<close>

theorem progress_nondecreasing_in_range:
  assumes "round_ok rt N" and "100 \<le> N" and "nat (end_date - start_date + 1) \<le> N"
    and "r1 = scrape_comprar_tics rt env1 start_date end_date output_dir cb canc"
    and "r2 = scrape_comprar_tics_robot rt env2 start_date end_date output_dir cb canc"
    and "r3 = scrape_boletin_tercera rt env3 start_date end_date output_dir cb canc"
  shows "progress_ok (progress_of (run_events r1))
    \<and> progress_ok (progress_of (run_events r2))
    \<and> progress_ok (progress_of (run_events r3))
    \<and> (run_records r1 = []
         \<longrightarrow> progress_of (run_events r1) = (if cb \<and> \<not> isl (run_result r1) then [100] else []))
    \<and> (run_records r2 = []
         \<longrightarrow> progress_of (run_events r2) = (if cb \<and> \<not> isl (run_result r2) then [100] else []))
    \<and> (run_records r3 = [] \<and> start_date \<le> end_date
         \<longrightarrow> (\<exists>n\<le>nat (end_date - start_date + 1).
                progress_of (run_events r3)
                  = (if cb then
                       map (\<lambda>k. day_pct rt k (end_date - start_date + 1))
                         (dias_sin_avisos env3 start_date n)
                     else [])
                \<and> ((\<forall>p. \<not> is_cancelled_now canc p) \<and> end_date \<le> date_max
                      \<longrightarrow> n = nat (end_date - start_date + 1))))"
proof -
  have z: "run_records r3 = [] \<and> start_date \<le> end_date
         \<longrightarrow> (\<exists>n\<le>nat (end_date - start_date + 1).
                progress_of (run_events r3)
                  = (if cb then
                       map (\<lambda>k. day_pct rt k (end_date - start_date + 1))
                         (dias_sin_avisos env3 start_date n)
                     else [])
                \<and> ((\<forall>p. \<not> is_cancelled_now canc p) \<and> end_date \<le> date_max
                      \<longrightarrow> n = nat (end_date - start_date + 1)))"
    using boletin_run_sin_registros[OF assms(6)] by blast
  from comprar_run_progress[OF assms(1,2,4)] robot_run_progress[OF assms(5)]
    boletin_run_progress[OF assms(1,2,3,6)] z
  show ?thesis by blast
qed

section \<open>The concrete sites, run\<close>

lemma latin1_round_ok: "round_ok latin1_rt N"
  by (simp add: round_ok_def latin1_rt_def)

lemma latin1_round [simp]: "rt_round latin1_rt x = x"
  by (simp add: latin1_rt_def)

lemmas civil_eval =
  civil_of_ordinal_def civil_doe_def civil_yoe_def civil_doy_def civil_mp_def civil_month_def

lemma civil_ejemplos:
  "civil_of_ordinal 739252 = (2025, 1, 1)"
  "civil_of_ordinal 739253 = (2025, 1, 2)"
  "civil_of_ordinal 739282 = (2025, 1, 31)"
  by (simp_all add: civil_eval)

lemma strftime_ejemplos:
  "rt_strftime latin1_rt 739252 = py ''20250101''"
  "rt_strftime latin1_rt 739253 = py ''20250102''"
  "rt_strftime latin1_rt 739282 = py ''20250131''"
  by (simp_all add: latin1_rt_def strftime_Ymd_def civil_ejemplos pad_digits_def py_def
      upt_conv_Cons)

lemma row_progress_latin1: "row_progress latin1_rt i t = (int i * 100) div int t"
proof -
  have "(0::rat) \<le> of_int (int i * 100) / of_int (int t)" by simp
  then have "py_trunc (of_int (int i * 100) / of_int (int t))
             = \<lfloor>(of_int (int i * 100) :: rat) / of_int (int t)\<rfloor>"
    by (simp only: py_trunc_def if_True)
  also have "\<dots> = (int i * 100) div int t" by (rule floor_divide_of_int_eq)
  finally show ?thesis by (simp add: row_progress_def int_truediv_def)
qed

lemma red_ejemplo_pages: "iter_compras_pages red_ejemplo None = Inr [pagina_uno, pagina_dos]"
  by (simp add: iter_compras_pages_def red_ejemplo_def pagina_uno_def total_pages_of_def
      over_max_def py_def upt_conv_Cons)

lemma filas_ejemplo:
  "concat (map list_rows [pagina_uno, pagina_dos])
   = [fila_ejemplo, fila_ejemplo, fila_ejemplo, fila_ejemplo, fila_ejemplo, fila_ejemplo,
      fila_ejemplo, fila_ejemplo, fila_ejemplo, fila_ejemplo, fila_ejemplo, fila_ejemplo,
      fila_ejemplo, fila_ejemplo, fila_ejemplo]"
  by (simp add: pagina_uno_def pagina_dos_def)

lemmas poll_eval = is_cancelled_now_def poll_ev_def polled_def report_def cancela_al_tercero_def

lemmas pct_eval = day_pct_def aviso_pct_def pct_of_frac_def day_frac_def aviso_frac_def
  int_truediv_def float_mul_int_def float_div_int_def int_add_float_def py_float_def
  clamp_pct_def py_trunc_def

lemma py_nonempty [simp]: "py (c # cs) \<noteq> []"
  by (simp add: py_def)

lemma py_or_Some: "py_or (Some s) b = (if s = [] then b else Some s)"
  by (simp add: py_or_def truthy_def)

lemma es_tic_ejemplos:
  "es_tic latin1_rt
     (Some (texto_tic (Some (py ''1 - Notebooks''))
              (Some (py ''Servicio de limpieza de oficinas''))))"
  "es_tic latin1_rt
     (Some (texto_tic (Some (py ''Servicio de limpieza de oficinas''))
              (Some (py ''1 - Notebooks''))))"
  "\<not> es_tic latin1_rt (Some (texto_tic None (Some (py ''Servicio de limpieza''))))"
  by (simp_all add: texto_tic_def str_or_empty_def py_or_def truthy_def es_tic_def
      TIC_KEYWORDS_def latin1_eval)

lemma merge_ejemplos:
  "merge_row latin1_rt fila_ejemplo detalle_ejemplo = registro_fusionado"
  "merge_row latin1_rt fila_ejemplo empty_detail = registro_listado"
  by (simp_all add: merge_row_def fila_ejemplo_def detalle_ejemplo_def empty_detail_def
      registro_fusionado_def registro_listado_def Let_def py_or_Some es_tic_ejemplos)

lemma registro_de_ejemplo:
  "registro_de latin1_rt (fila_robot numero) detalle_sin_numero = registro_robot numero"
  by (simp add: registro_de_def fila_robot_def detalle_sin_numero_def detalle_ejemplo_def
      registro_robot_def registro_fusionado_def Let_def py_or_Some es_tic_ejemplos)

lemma registro_aviso_ejemplo:
  "registro_aviso parsed_ejemplo aviso_ejemplo = registro_boletin_ejemplo"
  by (simp add: registro_aviso_def parsed_ejemplo_def aviso_ejemplo_def
      registro_boletin_ejemplo_def)

lemma hojas_ejemplo:
  "comprar_cells registro_fusionado = hoja_fusionada"
  "comprar_cells registro_listado = hoja_listado"
  "robot_cells (registro_robot numero) = hoja_robot numero"
  "boletin_cells registro_boletin_ejemplo = hoja_boletin_ejemplo"
  by (simp_all add: comprar_cells_def robot_cells_def boletin_cells_def registro_fusionado_def
      registro_listado_def registro_robot_def registro_boletin_ejemplo_def hoja_fusionada_def
      hoja_listado_def hoja_robot_def hoja_boletin_ejemplo_def)

lemma detail_for_ejemplo:
  "detail_for red_ejemplo k fila_ejemplo = (if k = 7 then empty_detail else detalle_ejemplo)"
  by (simp add: detail_for_def red_ejemplo_def fila_ejemplo_def truthy_def)

lemmas ejemplo_eval = detail_for_ejemplo merge_ejemplos registro_de_ejemplo
  registro_aviso_ejemplo hojas_ejemplo

lemma corrida_http_sin_cancelar:
  "run_result (corrida_http cb None) = Inr 15"
  "run_records (corrida_http cb None)
   = [registro_fusionado, registro_fusionado, registro_fusionado, registro_fusionado,
      registro_fusionado, registro_fusionado, registro_listado, registro_fusionado,
      registro_fusionado, registro_fusionado, registro_fusionado, registro_fusionado,
      registro_fusionado, registro_fusionado, registro_fusionado]"
  "progress_of (run_events (corrida_http True None))
   = [6, 13, 20, 26, 33, 40, 46, 53, 60, 66, 73, 80, 86, 93, 100, 100]"
  unfolding corrida_http_def comprar_run_shape[OF red_ejemplo_pages filas_ejemplo[symmetric]]
  by (simp_all add: poll_eval row_progress_latin1 Let_def event_append ejemplo_eval)


lemma corrida_http_vacia_run:
  "run_result (corrida_http_vacia cb canc) = Inr 0"
  "run_records (corrida_http_vacia cb canc) = []"
  "run_events (corrida_http_vacia cb canc) = report cb 100"
  by (simp_all add: corrida_http_vacia_def scrape_comprar_tics_def iter_compras_pages_def
      red_vacia_def pagina_vacia_def total_pages_of_def Let_def)


lemma corrida_robot_sin_cancelar:
  "run_result (corrida_robot cb None) = Inr 2"
  "run_records (corrida_robot cb None)
   = [registro_robot (py ''A-1''), registro_robot (py ''A-3'')]"
  "progress_of (run_events (corrida_robot True None)) = [1, 2, 100]"
  unfolding corrida_robot_def robot_ejemplo_def robot_run_shape
  by (simp_all add: pagina_robot_def poll_eval Let_def ejemplo_eval)


lemma corrida_robot_vacia_run:
  "run_result (corrida_robot_vacia cb canc) = Inr 0"
  "run_records (corrida_robot_vacia cb canc) = []"
  by (simp_all add: corrida_robot_vacia_def robot_vacio_def robot_run_shape)



lemma corrida_boletin_sin_cancelar:
  "run_result (corrida_boletin cb None) = Inr 2"
  "run_records (corrida_boletin cb None) = [registro_boletin_ejemplo, registro_boletin_ejemplo]"
  "progress_of (run_events (corrida_boletin True None)) = [25, 50, 100]"
  by (simp_all add: corrida_boletin_def scrape_boletin_tercera_def dias_loop.simps
      boletin_ejemplo_def poll_eval pct_eval Let_def date_max_def ejemplo_eval)



lemma corrida_boletin_fallida_run:
  "run_result (corrida_boletin_fallida cb None) = Inr 0"
  "run_records (corrida_boletin_fallida cb None) = []"
  "progress_of (run_events (corrida_boletin_fallida True None)) = [50]"
  by (simp_all add: corrida_boletin_fallida_def scrape_boletin_tercera_def dias_loop.simps
      boletin_fallido_def poll_eval pct_eval Let_def date_max_def)

lemma dias_sin_avisos_fallido: "dias_sin_avisos boletin_fallido 739252 2 = [1]"
  by (simp add: dias_sin_avisos_def boletin_fallido_def upt_conv_Cons)


section \<open>The claims on the concrete sites\<close>



lemma nombres_de_archivo:
  "py ''comprar_tics_'' @ py ''20250101'' @ py ''_'' @ py ''20250102'' @ py ''.xlsx''
   = py ''comprar_tics_20250101_20250102.xlsx''"
  "py ''comprar_selenium_'' @ py ''20250101'' @ py ''_'' @ py ''20250102'' @ py ''.xlsx''
   = py ''comprar_selenium_20250101_20250102.xlsx''"
  "py ''contrataciones_tercera_'' @ py ''20250101'' @ py ''_'' @ py ''20250102'' @ py ''.xlsx''
   = py ''contrataciones_tercera_20250101_20250102.xlsx''"
  by (simp_all add: py_def)

lemmas archivo_eval = comprar_filename_def robot_filename_def boletin_filename_def
  strftime_ejemplos nombres_de_archivo




text \<open>
  C2 on the concrete sites, with the identity as rounding (so \<open>round_ok\<close> holds for every
  bound): the values reported by the three adapters over 1 and 2 January 2025, the single
  100 of the two COMPR.AR adapters on a listing without rows, and the single 50 of the
  gazette adapter when the first day has no notices and the only notice of the second
  cannot be fetched.
\<close>

theorem progress_nondecreasing_in_range_witness:
  "round_ok latin1_rt 100
   \<and> progress_of (run_events (corrida_http True None))
       = [6, 13, 20, 26, 33, 40, 46, 53, 60, 66, 73, 80, 86, 93, 100, 100]
   \<and> sorted (progress_of (run_events (corrida_http True None)))
   \<and> progress_of (run_events (corrida_robot True None)) = [1, 2, 100]
   \<and> sorted (progress_of (run_events (corrida_robot True None)))
   \<and> progress_of (run_events (corrida_boletin True None)) = [25, 50, 100]
   \<and> sorted (progress_of (run_events (corrida_boletin True None)))
   \<and> run_records (corrida_http_vacia True None) = []
   \<and> progress_of (run_events (corrida_http_vacia True None)) = [100]
   \<and> run_records (corrida_robot_vacia True None) = []
   \<and> progress_of (run_events (corrida_robot_vacia True None)) = [100]
   \<and> run_records (corrida_boletin_fallida True None) = []
   \<and> dias_sin_avisos boletin_fallido 739252 2 = [1]
   \<and> progress_of (run_events (corrida_boletin_fallida True None)) = [50]"
proof -
  have le: "(100::nat) \<le> 100" "nat ((739253::int) - 739252 + 1) \<le> (100::nat)"
    by simp_all
  note th1 = progress_nondecreasing_in_range[OF latin1_round_ok[of 100] le
      corrida_http_def[of True None] corrida_robot_def[of True None]
      corrida_boletin_def[of True None]]
  note th2 = progress_nondecreasing_in_range[OF latin1_round_ok[of 100] le
      corrida_http_vacia_def[of True None] corrida_robot_vacia_def[of True None]
      corrida_boletin_fallida_def[of True None]]
  from th1[THEN conjunct1] th1[THEN conjunct2, THEN conjunct1]
    th1[THEN conjunct2, THEN conjunct2, THEN conjunct1]
  have s: "sorted (progress_of (run_events (corrida_http True None)))"
    "sorted (progress_of (run_events (corrida_robot True None)))"
    "sorted (progress_of (run_events (corrida_boletin True None)))"
    by (simp_all only: progress_ok_def)
  from th2[THEN conjunct2, THEN conjunct2, THEN conjunct2, THEN conjunct1]
  have v1: "progress_of (run_events (corrida_http_vacia True None)) = [100]"
    by (simp add: corrida_http_vacia_run(1,2))
  from th2[THEN conjunct2, THEN conjunct2, THEN conjunct2, THEN conjunct2, THEN conjunct1]
  have v2: "progress_of (run_events (corrida_robot_vacia True None)) = [100]"
    by (simp add: corrida_robot_vacia_run)
  have pre: "run_records (corrida_boletin_fallida True None) = [] \<and> (739252::int) \<le> 739253"
    by (simp add: corrida_boletin_fallida_run(2))
  have nc: "(\<forall>p. \<not> is_cancelled_now None p) \<and> (739253::int) \<le> date_max"
    by (simp add: is_cancelled_now_def date_max_def)
  from th2[THEN conjunct2, THEN conjunct2, THEN conjunct2, THEN conjunct2, THEN conjunct2]
    pre nc
  obtain n where n: "n = nat ((739253::int) - 739252 + 1)"
    "progress_of (run_events (corrida_boletin_fallida True None))
     = (if True then
          map (\<lambda>k. day_pct latin1_rt k (739253 - 739252 + 1))
            (dias_sin_avisos boletin_fallido 739252 n)
        else [])"
    by blast
  from n(1) have n2: "n = 2" by simp
  have v3: "progress_of (run_events (corrida_boletin_fallida True None)) = [50]"
    unfolding n(2) n2 by (simp add: dias_sin_avisos_fallido pct_eval)
  from s v1 v2 v3 show ?thesis
    by (simp add: latin1_round_ok corrida_http_sin_cancelar(3) corrida_robot_sin_cancelar(3)
        corrida_boletin_sin_cancelar(3) corrida_http_vacia_run(2) corrida_robot_vacia_run(2)
        corrida_boletin_fallida_run(2) dias_sin_avisos_fallido)
qed

text \<open>
  Against C2 as stated for zero-row runs: the gazette site with one notice on 2 January 2025
  whose page cannot be fetched.  The run over 1 and 2 January returns 0 without records, and
  the only value it reports is 50 (for the first, empty day): neither 100 once nor nothing.
\<close>

theorem boletin_zero_rows_reports_50_counterexample:
  "run_result (corrida_boletin_fallida True None) = Inr 0
   \<and> run_records (corrida_boletin_fallida True None) = []
   \<and> progress_of (run_events (corrida_boletin_fallida True None)) = [50]"
  by (simp add: corrida_boletin_fallida_run)



text \<open>
  C6 on the concrete sites, over 1 and 2 January 2025: the three runs with records write one
  file each, under the adapter's name for that range, with one row per record; the three
  runs without records return 0 and write nothing.
\<close>

theorem no_records_no_file_else_one_dated_file_witness:
  "run_result (corrida_http False None) = Inr 15
   \<and> written (run_events (corrida_http False None))
       = [(py ''salida'', py ''comprar_tics_20250101_20250102.xlsx'', comprar_columns,
           [hoja_fusionada, hoja_fusionada, hoja_fusionada, hoja_fusionada, hoja_fusionada,
            hoja_fusionada, hoja_listado, hoja_fusionada, hoja_fusionada, hoja_fusionada,
            hoja_fusionada, hoja_fusionada, hoja_fusionada, hoja_fusionada, hoja_fusionada])]
   \<and> run_result (corrida_robot False None) = Inr 2
   \<and> written (run_events (corrida_robot False None))
       = [(py ''salida'', py ''comprar_selenium_20250101_20250102.xlsx'', robot_columns,
           [hoja_robot (py ''A-1''), hoja_robot (py ''A-3'')])]
   \<and> run_result (corrida_boletin False None) = Inr 2
   \<and> written (run_events (corrida_boletin False None))
       = [(py ''salida'', py ''contrataciones_tercera_20250101_20250102.xlsx'',
           boletin_columns, [hoja_boletin_ejemplo, hoja_boletin_ejemplo])]
   \<and> zip robot_columns (hoja_robot (py ''A-1'')) = campos_robot (registro_robot (py ''A-1''))
   \<and> run_result (corrida_http_vacia False None) = Inr 0
   \<and> written (run_events (corrida_http_vacia False None)) = []
   \<and> run_result (corrida_robot_vacia False None) = Inr 0
   \<and> written (run_events (corrida_robot_vacia False None)) = []
   \<and> run_result (corrida_boletin_fallida False None) = Inr 0
   \<and> written (run_events (corrida_boletin_fallida False None)) = []"
proof -
  note th1 = no_records_no_file_else_one_dated_file[OF corrida_http_def[of False None]
      corrida_robot_def[of False None] corrida_boletin_def[of False None],
      of 15 2 2]
  note th2 = no_records_no_file_else_one_dated_file[OF corrida_http_vacia_def[of False None]
      corrida_robot_vacia_def[of False None] corrida_boletin_fallida_def[of False None],
      of 0 0 0]
  note h = corrida_http_sin_cancelar(1,2)[of False]
  note r = corrida_robot_sin_cancelar(1,2)[of False]
  note b = corrida_boletin_sin_cancelar(1,2)[of False]
  from th1[THEN conjunct1]
  have w1: "written (run_events (corrida_http False None))
       = [(py ''salida'', py ''comprar_tics_20250101_20250102.xlsx'', comprar_columns,
           [hoja_fusionada, hoja_fusionada, hoja_fusionada, hoja_fusionada, hoja_fusionada,
            hoja_fusionada, hoja_listado, hoja_fusionada, hoja_fusionada, hoja_fusionada,
            hoja_fusionada, hoja_fusionada, hoja_fusionada, hoja_fusionada, hoja_fusionada])]"
    by (simp add: h(1,2) archivo_eval hojas_ejemplo)
  from th1[THEN conjunct2, THEN conjunct1]
  have w2: "written (run_events (corrida_robot False None))
       = [(py ''salida'', py ''comprar_selenium_20250101_20250102.xlsx'', robot_columns,
           [hoja_robot (py ''A-1''), hoja_robot (py ''A-3'')])]"
    by (simp add: r(1,2) archivo_eval hojas_ejemplo)
  from th1[THEN conjunct2, THEN conjunct2, THEN conjunct1]
  have w3: "written (run_events (corrida_boletin False None))
       = [(py ''salida'', py ''contrataciones_tercera_20250101_20250102.xlsx'',
           boletin_columns, [hoja_boletin_ejemplo, hoja_boletin_ejemplo])]"
    by (simp add: b(1,2) archivo_eval hojas_ejemplo)
  from th1[THEN conjunct2, THEN conjunct2, THEN conjunct2, THEN conjunct2, THEN conjunct1]
  have z: "zip robot_columns (hoja_robot (py ''A-1'')) = campos_robot (registro_robot (py ''A-1''))"
    by (simp add: hojas_ejemplo(3)[symmetric])
  from th2[THEN conjunct1] th2[THEN conjunct2, THEN conjunct1]
    th2[THEN conjunct2, THEN conjunct2, THEN conjunct1]
  have e: "written (run_events (corrida_http_vacia False None)) = []"
    "written (run_events (corrida_robot_vacia False None)) = []"
    "written (run_events (corrida_boletin_fallida False None)) = []"
    by (simp_all add: corrida_http_vacia_run corrida_robot_vacia_run
        corrida_boletin_fallida_run)
  from w1 w2 w3 z e show ?thesis
    by (simp add: h(1) r(1) b(1) corrida_http_vacia_run(1) corrida_robot_vacia_run(1)
        corrida_boletin_fallida_run(1))
qed

end
